theory Spec2Isabelle
  imports Complex_Main
begin

section \<open>Tensors as nested lists of reals\<close>

text \<open>
  The notebook \<^verbatim>\<open>NSM.py\<close> computes with torch tensors of floats. A tensor of rank k is
  modelled as a k-fold nested list, outermost axis first, and a float as a real number:
  rounding is outside the model, every other step of the arithmetic is written out.
  An axis of size one that the notebook adds only to make two operands broadcast
  (\<^verbatim>\<open>unsqueeze\<close>, \<^verbatim>\<open>view(BATCH, -1, 1, 1)\<close>) or removes again (\<^verbatim>\<open>squeeze\<close>) is not
  represented: the operation that follows it is written with the broadcasting spelled
  out. Where torch knows the size of an axis from the shape of a tensor, the model is
  given the size as an argument (\<open>d\<close> for \<^verbatim>\<open>EMBD_DIM\<close>, \<open>n\<close> for \<^verbatim>\<open>len(nodes)\<close>,
  \<open>L\<close> for \<^verbatim>\<open>len(property_types)\<close>). Operands whose shapes do not fit make torch raise
  \<^verbatim>\<open>RuntimeError\<close>; the theorems below are stated for tensors of the shapes the notebook
  builds, which the predicates of the section on shapes spell out.
\<close>

type_synonym vec = "real list"
type_synonym mat = "real list list"
type_synonym tensor3 = "real list list list"
type_synonym tensor4 = "real list list list list"

definition dot :: "vec \<Rightarrow> vec \<Rightarrow> real" where
  "dot u v = sum_list (map2 (*) u v)"

definition smul :: "real \<Rightarrow> vec \<Rightarrow> vec" where
  "smul c v = map ((*) c) v"

definition vmul :: "vec \<Rightarrow> vec \<Rightarrow> vec" where
  "vmul u v = map2 (*) u v"

definition vadd :: "vec \<Rightarrow> vec \<Rightarrow> vec" where
  "vadd u v = map2 (+) u v"

definition column :: "nat \<Rightarrow> 'a list list \<Rightarrow> 'a list" where
  "column k rows = map (\<lambda>row. row ! k) rows"

text \<open>\<open>vm d v M\<close>: the row vector \<open>v\<close> times a matrix with \<open>d\<close> columns, one row of
  \<^verbatim>\<open>torch.matmul\<close> and \<^verbatim>\<open>torch.bmm\<close>.\<close>

definition vm :: "nat \<Rightarrow> vec \<Rightarrow> mat \<Rightarrow> vec" where
  "vm d v M = map (\<lambda>k. dot v (column k M)) [0..<d]"

text \<open>\<open>mv M v\<close>: a matrix times a column vector, the product \<^verbatim>\<open>bmm(D, r.unsqueeze(2))\<close>
  for one batch element.\<close>

definition mv :: "mat \<Rightarrow> vec \<Rightarrow> vec" where
  "mv M v = map (\<lambda>row. dot row v) M"

text \<open>\<^verbatim>\<open>torch.sum\<close> along the axis that lists vectors of size \<open>d\<close>, and along the axis that
  lists matrices of \<open>n\<close> rows and \<open>d\<close> columns.\<close>

definition vsum :: "nat \<Rightarrow> vec list \<Rightarrow> vec" where
  "vsum d vs = map (\<lambda>k. sum_list (column k vs)) [0..<d]"

definition msum :: "nat \<Rightarrow> nat \<Rightarrow> mat list \<Rightarrow> mat" where
  "msum n d ms = map (\<lambda>x. vsum d (column x ms)) [0..<n]"

text \<open>\<^verbatim>\<open>t.transpose(2,1)\<close> of one batch element: from \<open>[n, K, d]\<close> to \<open>[K, n, d]\<close>.\<close>

definition transpose21 :: "nat \<Rightarrow> 'a list list \<Rightarrow> 'a list list" where
  "transpose21 K t = map (\<lambda>j. column j t) [0..<K]"

text \<open>\<^verbatim>\<open>F.softmax\<close> along one axis and \<^verbatim>\<open>F.elu\<close> with its default \<^verbatim>\<open>alpha = 1\<close>.\<close>

definition softmax :: "vec \<Rightarrow> vec" where
  "softmax xs = map (\<lambda>x. exp x / sum_list (map exp xs)) xs"

definition elu :: "real \<Rightarrow> real" where
  "elu x = (if x > 0 then x else exp x - 1)"

section \<open>Hyperparameters\<close>

record hyperparams =
  EMBD_DIM :: nat
  OUT_DIM :: nat
  BATCH :: nat
  N :: nat

definition default_hyperparams :: hyperparams where
  "default_hyperparams = \<lparr>EMBD_DIM = 7, OUT_DIM = 4, BATCH = 32, N = 3\<rparr>"

section \<open>Model simulation\<close>

text \<open>\<^verbatim>\<open>p_i = torch.ones(BATCH, len(nodes)) / len(nodes)\<close>\<close>

definition p_0 :: "nat \<Rightarrow> nat \<Rightarrow> mat" where
  "p_0 B n = replicate B (replicate n (1 / real n))"

text \<open>\<^verbatim>\<open>R_i = F.softmax(torch.bmm(D.expand(BATCH, -1, EMBD_DIM), r_i.unsqueeze(2)), dim=1).squeeze(2)\<close>:
  for every batch element the softmax, over the property types, of the products of
  the rows of \<open>D\<close> with the instruction.\<close>

definition R_i :: "nat \<Rightarrow> mat \<Rightarrow> mat \<Rightarrow> mat" where
  "R_i B D r_i = map softmax (map2 mv (replicate B D) r_i)"

text \<open>\<^verbatim>\<open>r_i_prime = R_i[:,-1].unsqueeze(1)\<close> and \<^verbatim>\<open>property_R_i = R_i[:,:-1]\<close>\<close>

definition r_i_prime :: "mat \<Rightarrow> vec" where
  "r_i_prime R = map last R"

definition property_R_i :: "mat \<Rightarrow> mat" where
  "property_R_i R = map butlast R"

text \<open>The node relevance \<^verbatim>\<open>\<gamma>_i_s\<close>: \<^verbatim>\<open>S.transpose(2,1)\<close> is multiplied, property by property,
  with \<^verbatim>\<open>property_W\<close>, then elementwise with the instruction, then with the relevance of
  the property; the sum runs over the property axis (\<^verbatim>\<open>dim=1\<close>).\<close>

definition gamma_i_s :: "nat \<Rightarrow> nat \<Rightarrow> nat \<Rightarrow> tensor4 \<Rightarrow> tensor3 \<Rightarrow> mat \<Rightarrow> mat \<Rightarrow> tensor3" where
  "gamma_i_s d n L S property_W prop_R r_i =
     map (\<lambda>(S_b, R_b, r_b).
         map (map elu)
           (msum n d
              (map2 (\<lambda>R_j M_j. map (smul R_j) M_j) R_b
                 (map (map (\<lambda>v. vmul v r_b))
                    (map2 (\<lambda>S_j W_j. map (\<lambda>s. vm d s W_j) S_j)
                       (transpose21 (L + 1) S_b) property_W)))))
       (zip S (zip prop_R r_i))"



text \<open>The edge relevance \<^verbatim>\<open>\<gamma>_i_e\<close>: every stored edge embedding, of present and absent
  edges alike, is multiplied with \<^verbatim>\<open>W_L_plus_1\<close> and elementwise with the instruction.\<close>

definition gamma_i_e :: "nat \<Rightarrow> nat \<Rightarrow> tensor4 \<Rightarrow> mat \<Rightarrow> mat \<Rightarrow> tensor4" where
  "gamma_i_e d B E W_L_plus_1 r_i =
     map (\<lambda>(E_b, W_b, r_b). map (map (\<lambda>e. map elu (vmul (vm d e W_b) r_b))) E_b)
       (zip E (zip (replicate B W_L_plus_1) r_i))"

text \<open>The relational update \<^verbatim>\<open>p_i_r\<close>: \<^verbatim>\<open>\<gamma>_i_e[b, y, x]\<close> is scaled by \<^verbatim>\<open>p_i[b, y]\<close>, the sum
  runs over the source axis \<open>y\<close> (\<^verbatim>\<open>dim=1\<close>), the bias-free linear map \<^verbatim>\<open>W_r\<close> gives one
  score for every target \<open>x\<close>, and the softmax runs over the targets.\<close>

definition p_i_r :: "nat \<Rightarrow> nat \<Rightarrow> vec \<Rightarrow> tensor4 \<Rightarrow> mat \<Rightarrow> mat" where
  "p_i_r d n W_r g_e p_i =
     map (\<lambda>(g_b, p_b).
         softmax (map (\<lambda>v. dot v W_r)
           (msum n d (map2 (\<lambda>g_y p_y. map (map (\<lambda>x. x * p_y)) g_y) g_b p_b))))
       (zip g_e p_i)"

text \<open>The property-lookup update \<^verbatim>\<open>p_i_s = F.softmax(W_s(\<gamma>_i_s).squeeze(2), dim=1)\<close>.\<close>

definition p_i_s :: "vec \<Rightarrow> tensor3 \<Rightarrow> mat" where
  "p_i_s W_s g_s = map (\<lambda>g_b. softmax (map (\<lambda>v. dot v W_s) g_b)) g_s"

text \<open>The blend \<^verbatim>\<open>p_i = r_i_prime * p_i_r + (1 - r_i_prime) * p_i_s\<close>, where \<^verbatim>\<open>r_i_prime\<close>
  holds one number for every batch element.\<close>

definition blend :: "vec \<Rightarrow> mat \<Rightarrow> mat \<Rightarrow> mat" where
  "blend rp pr ps =
     map (\<lambda>(rp_b, pr_b, ps_b). vadd (smul rp_b pr_b) (smul (1 - rp_b) ps_b))
       (zip rp (zip pr ps))"

subsection \<open>The commented-out alternative of the relational update\<close>




text \<open>The relational update as the specification reads it: the sum for the target \<open>x\<close>
  runs over the sources \<open>y\<close> whose adjacency flag is 1 and over no other.\<close>

definition masked_p_i_r :: "nat \<Rightarrow> nat \<Rightarrow> vec \<Rightarrow> tensor3 \<Rightarrow> tensor4 \<Rightarrow> mat \<Rightarrow> mat" where
  "masked_p_i_r d n W_r adjacency_mask g_e p_i =
     map (\<lambda>(mask_b, g_b, p_b).
         softmax (map (\<lambda>x. dot (vsum d (map (\<lambda>y. smul (p_b ! y) (g_b ! y ! x))
                                         (filter (\<lambda>y. mask_b ! y ! x = 1) [0..<n]))) W_r)
                    [0..<n]))
       (zip adjacency_mask (zip g_e p_i))"

subsection \<open>The step and the loop\<close>

text \<open>The trained parameters of the simulation and of the classifier. \<^verbatim>\<open>W_r\<close> and \<^verbatim>\<open>W_s\<close> are
  \<^verbatim>\<open>nn.Linear(EMBD_DIM, 1, bias=False)\<close>, one row of weights each; the two layers of the
  classifier are \<^verbatim>\<open>nn.Linear\<close> with its default bias.\<close>

record weights =
  property_W :: tensor3
  W_L_plus_1 :: mat
  W_r :: vec
  W_s :: vec
  classifier_0_weight :: mat
  classifier_0_bias :: vec
  classifier_2_weight :: mat
  classifier_2_bias :: vec

text \<open>The cells of the notebook from \<^verbatim>\<open>r_i = r[:,i,:]\<close> to the blend: one step of the
  simulation, for the step index \<open>i\<close> and the incoming distribution \<open>p_i\<close>.\<close>

definition step :: "hyperparams \<Rightarrow> nat \<Rightarrow> nat \<Rightarrow> weights \<Rightarrow> mat \<Rightarrow> tensor4 \<Rightarrow> tensor4 \<Rightarrow> tensor3 \<Rightarrow> nat \<Rightarrow> mat \<Rightarrow> mat" where
  "step hp L n w D S E r i p_i =
     (let r_i = column i r;
          R = R_i (BATCH hp) D r_i;
          g_s = gamma_i_s (EMBD_DIM hp) n L S (property_W w) (property_R_i R) r_i;
          g_e = gamma_i_e (EMBD_DIM hp) (BATCH hp) E (W_L_plus_1 w) r_i
      in blend (r_i_prime R) (p_i_r (EMBD_DIM hp) n (W_r w) g_e p_i) (p_i_s (W_s w) g_s))"

text \<open>What the notebook executes: the cell \<^verbatim>\<open>i=0\<close> fixes the step index and the cells of
  the step run once, on the uniform \<open>p_0\<close>.\<close>

definition model_simulation :: "hyperparams \<Rightarrow> nat \<Rightarrow> nat \<Rightarrow> weights \<Rightarrow> mat \<Rightarrow> tensor4 \<Rightarrow> tensor4 \<Rightarrow> tensor3 \<Rightarrow> mat" where
  "model_simulation hp L n w D S E r = step hp L n w D S E r 0 (p_0 (BATCH hp) n)"

text \<open>What the markdown cell above the step announces: \<^verbatim>\<open>for i in range(N): MODEL SIMULATION\<close>.
  \<open>recurrent_loop \<dots> k\<close> is the distribution after the first \<open>k\<close> rounds of that loop.\<close>

definition recurrent_loop :: "hyperparams \<Rightarrow> nat \<Rightarrow> nat \<Rightarrow> weights \<Rightarrow> mat \<Rightarrow> tensor4 \<Rightarrow> tensor4 \<Rightarrow> tensor3 \<Rightarrow> nat \<Rightarrow> mat" where
  "recurrent_loop hp L n w D S E r k =
     fold (\<lambda>i p_i. step hp L n w D S E r i p_i) [0..<k] (p_0 (BATCH hp) n)"

section \<open>Final classifier\<close>

text \<open>\<^verbatim>\<open>r_N = r[:,N,:]\<close> and
  \<^verbatim>\<open>property_R_N = F.softmax(torch.bmm(D.expand(BATCH, -1, EMBD_DIM), r_N.unsqueeze(2)), dim=1).squeeze(2)[:,:-1]\<close>\<close>

definition property_R_N :: "hyperparams \<Rightarrow> mat \<Rightarrow> tensor3 \<Rightarrow> mat" where
  "property_R_N hp D r = map butlast (R_i (BATCH hp) D (column (N hp) r))"

text \<open>\<^verbatim>\<open>m = torch.bmm(p_i.unsqueeze(1), torch.sum(property_R_N.view(BATCH, 1, L+1, 1) * S, dim=2))\<close>:
  the states of a node are weighted by property and summed over the properties, the
  nodes are then weighted by \<open>p_i\<close> and summed.\<close>

definition m_summary :: "nat \<Rightarrow> mat \<Rightarrow> mat \<Rightarrow> tensor4 \<Rightarrow> mat" where
  "m_summary d p_i prop_R_N S =
     map (\<lambda>(p_b, R_b, S_b). vm d p_b (map (\<lambda>s. vsum d (map2 smul R_b s)) S_b))
       (zip p_i (zip prop_R_N S))"

text \<open>\<^verbatim>\<open>nn.Linear\<close> with bias, and the classifier
  \<^verbatim>\<open>nn.Sequential(nn.Linear(2*EMBD_DIM, 2*EMBD_DIM), nn.ELU(), nn.Linear(2*EMBD_DIM, OUT_DIM))\<close>
  applied to one row.\<close>

definition Linear :: "mat \<Rightarrow> vec \<Rightarrow> vec \<Rightarrow> vec" where
  "Linear W b x = vadd (mv W x) b"

definition classifier :: "weights \<Rightarrow> vec \<Rightarrow> vec" where
  "classifier w x =
     Linear (classifier_2_weight w) (classifier_2_bias w)
       (map elu (Linear (classifier_0_weight w) (classifier_0_bias w) x))"

text \<open>\<^verbatim>\<open>pre_logits = classifier(torch.cat([m, q], dim=2).squeeze(1))\<close>\<close>

definition pre_logits :: "weights \<Rightarrow> mat \<Rightarrow> mat \<Rightarrow> mat" where
  "pre_logits w m q = map (classifier w) (map2 (@) m q)"

text \<open>The cells of the section \<^verbatim>\<open>Final clasifier\<close>: they read the instructions \<open>r\<close>, the
  distribution \<open>p_i\<close> the simulation left and the context vector \<open>q\<close> of the encoder.\<close>

definition final_classifier :: "hyperparams \<Rightarrow> weights \<Rightarrow> mat \<Rightarrow> tensor4 \<Rightarrow> tensor3 \<Rightarrow> mat \<Rightarrow> mat \<Rightarrow> mat" where
  "final_classifier hp w D S r p_i q =
     (let m = m_summary (EMBD_DIM hp) p_i (property_R_N hp D r) S
      in pre_logits w m q)"

section \<open>Random draws\<close>

text \<open>\<^verbatim>\<open>torch.rand\<close> reads the global generator. The generator is modelled by the stream of
  the numbers it will draw, all of them in \<open>[0, 1)\<close>; a call takes the first \<open>k\<close> of them
  and leaves the rest. \<^verbatim>\<open>to_glove\<close> ignores its token and draws \<^verbatim>\<open>EMBD_DIM\<close> numbers.\<close>

type_synonym rng = "nat \<Rightarrow> real"

definition torch_rand :: "nat \<Rightarrow> rng \<Rightarrow> vec \<times> rng" where
  "torch_rand k g = (map g [0..<k], \<lambda>i. g (i + k))"



section \<open>Concept vocabulary\<close>






section \<open>Scene graph\<close>

text \<open>\<^verbatim>\<open>permutations(range(n), 2)\<close>: the ordered pairs of two different indices, in
  lexicographic order.\<close>

definition permutations2 :: "nat \<Rightarrow> (nat \<times> nat) list" where
  "permutations2 n = concat (map (\<lambda>i. map (Pair i) (filter (\<lambda>j. j \<noteq> i) [0..<n])) [0..<n])"

text \<open>The assignment \<^verbatim>\<open>T[:, i, j] = v\<close>, to every batch element.\<close>

definition assign_edge :: "nat \<Rightarrow> nat \<Rightarrow> 'a \<Rightarrow> 'a list list list \<Rightarrow> 'a list list list" where
  "assign_edge i j v T = map (\<lambda>T_b. T_b[i := (T_b ! i)[j := v]]) T"

text \<open>One round of the loop that fills \<^verbatim>\<open>E\<close> and \<^verbatim>\<open>adjacency_mask\<close>, and the loop on the two
  tensors of zeros.\<close>

definition edge_step ::
  "nat \<Rightarrow> string list \<Rightarrow> (string \<times> string \<rightharpoonup> string) \<Rightarrow> nat \<times> nat
     \<Rightarrow> tensor3 \<times> tensor4 \<times> rng \<Rightarrow> tensor3 \<times> tensor4 \<times> rng" where
  "edge_step d nodes relations idx_pair st =
     (case st of (adjacency_mask, E, g) \<Rightarrow>
        (let pair = (nodes ! fst idx_pair, nodes ! snd idx_pair)
         in if relations pair \<noteq> None
            then (let (v, g1) = torch_rand d g
                  in (assign_edge (fst idx_pair) (snd idx_pair) 1 adjacency_mask,
                      assign_edge (fst idx_pair) (snd idx_pair) v E, g1))
            else (adjacency_mask, E, g)))"

definition scene_graph_edges ::
  "nat \<Rightarrow> nat \<Rightarrow> string list \<Rightarrow> (string \<times> string \<rightharpoonup> string) \<Rightarrow> rng \<Rightarrow> tensor3 \<times> tensor4 \<times> rng" where
  "scene_graph_edges B d nodes relations g =
     fold (edge_step d nodes relations) (permutations2 (length nodes))
       (replicate B (replicate (length nodes) (replicate (length nodes) 0)),
        replicate B (replicate (length nodes) (replicate (length nodes) (replicate d 0))),
        g)"

section \<open>Reasoning instructions\<close>

text \<open>\<^verbatim>\<open>nn.LSTM\<close> with one layer, one direction and \<^verbatim>\<open>batch_first=True\<close> runs its cell along
  every sequence of the batch. The arithmetic of the cell is the library's; the cell is a
  parameter here: it maps an input and a state \<open>(h, c)\<close> to the next state, and the
  output of a step is the new \<open>h\<close>.\<close>

type_synonym lstm_cell = "vec \<Rightarrow> vec \<times> vec \<Rightarrow> vec \<times> vec"

fun lstm_run :: "lstm_cell \<Rightarrow> vec list \<Rightarrow> vec \<times> vec \<Rightarrow> vec list \<times> (vec \<times> vec)" where
  "lstm_run cell [] st = ([], st)"
| "lstm_run cell (x # xs) st =
     (let st1 = cell x st; (hs, st2) = lstm_run cell xs st1 in (fst st1 # hs, st2))"

record generator =
  W :: mat
  encoder_lstm :: lstm_cell
  decoder_lstm :: lstm_cell

text \<open>\<^verbatim>\<open>P_i = torch.softmax(torch.bmm(torch.bmm(embd_questions, W.expand(BATCH, ...)),
  C.expand(BATCH, -1, EMBD_DIM).transpose(1,2)), dim=2)\<close>\<close>

definition P_i :: "nat \<Rightarrow> nat \<Rightarrow> tensor3 \<Rightarrow> mat \<Rightarrow> mat \<Rightarrow> tensor3" where
  "P_i d B embd_questions W0 C =
     map (\<lambda>(Q_b, W_b, C_b). map (\<lambda>word. softmax (mv C_b (vm d word W_b))) Q_b)
       (zip embd_questions (zip (replicate B W0) (replicate B C)))"

text \<open>\<^verbatim>\<open>V = (P_i[:, :, -1]).unsqueeze(2) * embd_questions +
  torch.bmm(P_i[:, :, :-1], C[:-1, :].expand(BATCH, -1, EMBD_DIM))\<close>\<close>

definition V :: "nat \<Rightarrow> nat \<Rightarrow> tensor3 \<Rightarrow> tensor3 \<Rightarrow> mat \<Rightarrow> tensor3" where
  "V d B P embd_questions C =
     map (\<lambda>(P_b, Q_b, C_b).
         map2 (\<lambda>P_w word. vadd (smul (last P_w) word) (vm d (butlast P_w) C_b)) P_b Q_b)
       (zip P (zip embd_questions (replicate B (butlast C))))"

text \<open>\<^verbatim>\<open>_, encoder_hidden = encoder_lstm(V)\<close>: the final state of every sequence, from the
  zero state; \<^verbatim>\<open>q\<close> is its \<open>h\<close>.\<close>

definition encoder_hidden :: "nat \<Rightarrow> lstm_cell \<Rightarrow> tensor3 \<Rightarrow> (vec \<times> vec) list" where
  "encoder_hidden d cell V0 = map (\<lambda>V_b. snd (lstm_run cell V_b (replicate d 0, replicate d 0))) V0"

definition q_context :: "(vec \<times> vec) list \<Rightarrow> mat" where
  "q_context hidden = map fst hidden"

text \<open>\<^verbatim>\<open>h, _ = decoder_lstm(q.expand(BATCH, N+1, EMBD_DIM), encoder_hidden)\<close>\<close>

definition decoder_h :: "nat \<Rightarrow> lstm_cell \<Rightarrow> mat \<Rightarrow> (vec \<times> vec) list \<Rightarrow> tensor3" where
  "decoder_h steps cell q hidden =
     map2 (\<lambda>q_b st. fst (lstm_run cell (replicate (steps + 1) q_b) st)) q hidden"

text \<open>\<^verbatim>\<open>r = torch.bmm(torch.softmax(torch.bmm(h, V.transpose(1, 2)), dim=2), V)\<close>\<close>

definition r_instructions :: "nat \<Rightarrow> tensor3 \<Rightarrow> tensor3 \<Rightarrow> tensor3" where
  "r_instructions d h V0 = map2 (\<lambda>h_b V_b. map (\<lambda>h_t. vm d (softmax (mv V_b h_t)) V_b) h_b) h V0"

section \<open>The forward computation\<close>

text \<open>The notebook from the embedded questions to \<^verbatim>\<open>pre_logits\<close>, as it executes.\<close>

definition forward ::
  "hyperparams \<Rightarrow> nat \<Rightarrow> nat \<Rightarrow> weights \<Rightarrow> generator \<Rightarrow> mat \<Rightarrow> mat \<Rightarrow> tensor4 \<Rightarrow> tensor4 \<Rightarrow> tensor3 \<Rightarrow> mat" where
  "forward hp L n w gen D C S E embd_questions =
     (let P = P_i (EMBD_DIM hp) (BATCH hp) embd_questions (W gen) C;
          V0 = V (EMBD_DIM hp) (BATCH hp) P embd_questions C;
          hidden = encoder_hidden (EMBD_DIM hp) (encoder_lstm gen) V0;
          q = q_context hidden;
          h = decoder_h (N hp) (decoder_lstm gen) q hidden;
          r = r_instructions (EMBD_DIM hp) h V0;
          p_i = model_simulation hp L n w D S E r
      in final_classifier hp w D S r p_i q)"

section \<open>Shapes and distributions\<close>

definition is_mat :: "nat \<Rightarrow> nat \<Rightarrow> 'a list list \<Rightarrow> bool" where
  "is_mat a b t \<longleftrightarrow> length t = a \<and> (\<forall>v\<in>set t. length v = b)"

definition is_tensor3 :: "nat \<Rightarrow> nat \<Rightarrow> nat \<Rightarrow> 'a list list list \<Rightarrow> bool" where
  "is_tensor3 a b c t \<longleftrightarrow> length t = a \<and> (\<forall>x\<in>set t. is_mat b c x)"

definition is_tensor4 :: "nat \<Rightarrow> nat \<Rightarrow> nat \<Rightarrow> nat \<Rightarrow> 'a list list list list \<Rightarrow> bool" where
  "is_tensor4 a b c d t \<longleftrightarrow> length t = a \<and> (\<forall>x\<in>set t. is_tensor3 b c d x)"

text \<open>The inputs of the simulation as the notebook builds them: at least one node, one row
  of \<open>D\<close> for each of the \<open>L + 2\<close> property types, \<open>L + 1\<close> property states for every node,
  an edge embedding for every ordered pair of nodes, \<open>N + 1\<close> instructions.\<close>

definition valid_input :: "hyperparams \<Rightarrow> nat \<Rightarrow> nat \<Rightarrow> mat \<Rightarrow> tensor4 \<Rightarrow> tensor4 \<Rightarrow> tensor3 \<Rightarrow> bool" where
  "valid_input hp L n D S E r \<longleftrightarrow>
     0 < n \<and> is_mat (L + 2) (EMBD_DIM hp) D \<and>
     is_tensor4 (BATCH hp) n (L + 1) (EMBD_DIM hp) S \<and>
     is_tensor4 (BATCH hp) n n (EMBD_DIM hp) E \<and>
     is_tensor3 (BATCH hp) (N hp + 1) (EMBD_DIM hp) r"

text \<open>The trained parameters in the shapes the notebook gives them.\<close>

definition valid_weights :: "hyperparams \<Rightarrow> nat \<Rightarrow> weights \<Rightarrow> bool" where
  "valid_weights hp L w \<longleftrightarrow>
     is_tensor3 (L + 1) (EMBD_DIM hp) (EMBD_DIM hp) (property_W w) \<and>
     is_mat (EMBD_DIM hp) (EMBD_DIM hp) (W_L_plus_1 w) \<and>
     length (W_r w) = EMBD_DIM hp \<and> length (W_s w) = EMBD_DIM hp \<and>
     is_mat (2 * EMBD_DIM hp) (2 * EMBD_DIM hp) (classifier_0_weight w) \<and>
     length (classifier_0_bias w) = 2 * EMBD_DIM hp \<and>
     is_mat (OUT_DIM hp) (2 * EMBD_DIM hp) (classifier_2_weight w) \<and>
     length (classifier_2_bias w) = OUT_DIM hp"

definition is_distribution :: "vec \<Rightarrow> bool" where
  "is_distribution p \<longleftrightarrow> (\<forall>x\<in>set p. 0 \<le> x) \<and> sum_list p = 1"

definition is_distribution_batch :: "nat \<Rightarrow> nat \<Rightarrow> mat \<Rightarrow> bool" where
  "is_distribution_batch B n p \<longleftrightarrow> is_mat B n p \<and> (\<forall>p_b\<in>set p. is_distribution p_b)"

text \<open>What the loop over the pairs \<open>ps\<close> has built: two tensors with an entry for every
  batch element and every ordered pair of nodes; the flag is 1 where the pair was visited
  and has a relation; everywhere else the flag is 0 and the embedding is the zero
  vector.\<close>

definition edges_built ::
  "nat \<Rightarrow> nat \<Rightarrow> string list \<Rightarrow> (string \<times> string \<rightharpoonup> string) \<Rightarrow> (nat \<times> nat) list
     \<Rightarrow> tensor3 \<times> tensor4 \<times> rng \<Rightarrow> bool" where
  "edges_built B d nodes relations ps st \<longleftrightarrow>
     (case st of (adjacency_mask, E, g) \<Rightarrow>
        length adjacency_mask = B \<and> length E = B \<and>
        (\<forall>b<B. length (adjacency_mask ! b) = length nodes \<and> length (E ! b) = length nodes \<and>
           (\<forall>i<length nodes.
              length (adjacency_mask ! b ! i) = length nodes \<and>
              length (E ! b ! i) = length nodes \<and>
              (\<forall>j<length nodes.
                 length (E ! b ! i ! j) = d \<and>
                 (if (i, j) \<in> set ps \<and> relations (nodes ! i, nodes ! j) \<noteq> None
                  then adjacency_mask ! b ! i ! j = 1
                  else adjacency_mask ! b ! i ! j = 0 \<and> E ! b ! i ! j = replicate d 0)))))"

section \<open>The scenario of the notebook\<close>





definition example_nodes :: "string list" where
  "example_nodes = [''kitten'', ''person'', ''shirt'']"

definition example_relations :: "string \<times> string \<rightharpoonup> string" where
  "example_relations =
     [(''person'', ''shirt'') \<mapsto> ''wear'', (''person'', ''kitten'') \<mapsto> ''holding'',
      (''kitten'', ''shirt'') \<mapsto> ''bite'']"

definition example_rng :: rng where
  "example_rng = (\<lambda>i. 1 / 2)"

definition half :: "nat \<Rightarrow> vec" where
  "half d = replicate d (1 / 2)"

definition eye :: "nat \<Rightarrow> mat" where
  "eye d = map (\<lambda>i. map (\<lambda>j. if i = j then 1 else 0) [0..<d]) [0..<d]"

definition example_D :: mat where
  "example_D = replicate 4 (half 7)"

definition example_S :: tensor4 where
  "example_S = replicate 32 (replicate 3 (replicate 3 (half 7)))"

definition example_adjacency_mask :: tensor3 where
  "example_adjacency_mask = replicate 32 [[0, 0, 1], [1, 0, 1], [0, 0, 0]]"

definition example_E :: tensor4 where
  "example_E =
     replicate 32 [[replicate 7 0, replicate 7 0, half 7],
                   [half 7, replicate 7 0, half 7],
                   [replicate 7 0, replicate 7 0, replicate 7 0]]"

definition example_r :: tensor3 where
  "example_r = replicate 32 (replicate 4 (half 7))"

definition quarter :: "nat \<Rightarrow> vec" where
  "quarter d = replicate d (1 / 4)"

definition example_weights :: weights where
  "example_weights =
     \<lparr>property_W = replicate 3 (eye 7), W_L_plus_1 = eye 7, W_r = quarter 7, W_s = quarter 7,
      classifier_0_weight = replicate 14 (quarter 14), classifier_0_bias = quarter 14,
      classifier_2_weight = replicate 4 (quarter 14), classifier_2_bias = quarter 4\<rparr>"

text \<open>A context vector for every batch element, and instructions that differ from
  \<open>example_r\<close> in the terminal instruction only.\<close>

definition example_q :: mat where
  "example_q = replicate 32 (half 7)"

definition example_r_alt :: tensor3 where
  "example_r_alt = replicate 32 (replicate 3 (half 7) @ [replicate 7 0])"

text \<open>The five embedded words of the question for every batch element, the table \<open>C\<close> of
  the nine concepts and the fallback row, and a generator whose bilinear map is the
  identity; its two cells add the input to \<open>h\<close> and keep \<open>c\<close>.\<close>

definition example_embd_questions :: tensor3 where
  "example_embd_questions = replicate 32 (replicate 5 (half 7))"

definition example_C :: mat where
  "example_C = replicate 10 (half 7)"

definition example_cell :: lstm_cell where
  "example_cell x st = (vadd x (fst st), snd st)"

definition example_generator :: generator where
  "example_generator = \<lparr>W = eye 7, encoder_lstm = example_cell, decoder_lstm = example_cell\<rparr>"

text \<open>The edge tensor of the scenario with the embedding of the absent edge from
  \<^verbatim>\<open>kitten\<close> to \<^verbatim>\<open>person\<close> overwritten: by the vector of \<open>1/2\<close>s, and by a vector whose edge
  relevance under the instruction of \<open>1/2\<close>s is \<open>1/2\<close> in the first component, \<open>-1/2\<close> in the
  second and 0 elsewhere.\<close>

definition example_E_perturbed :: tensor4 where
  "example_E_perturbed = assign_edge 0 1 (half 7) example_E"

definition example_e_balanced :: vec where
  "example_e_balanced = [1, - (2 * ln 2), 0, 0, 0, 0, 0]"

definition example_E_balanced :: tensor4 where
  "example_E_balanced = assign_edge 0 1 example_e_balanced example_E"



text \<open>The weights of the scenario with the bias of the first layer of the classifier set
  to \<open>-2\<close>, which makes the hidden layer negative.\<close>

definition example_weights_negative_bias :: weights where
  "example_weights_negative_bias = example_weights\<lparr>classifier_0_bias := replicate 14 (- 2)\<rparr>"

section \<open>Softmax, blends and the distribution invariant\<close>

lemma length_softmax [simp]: "length (softmax xs) = length xs"
  by (simp add: softmax_def)

lemma sum_list_exp_pos: "xs \<noteq> [] \<Longrightarrow> 0 < sum_list (map exp (xs::real list))"
proof (induction xs)
  case Nil
  then show ?case by simp
next
  case (Cons a xs)
  have "0 \<le> sum_list (map exp xs)" by (rule sum_list_nonneg) auto
  then show ?case using exp_gt_zero [of a] by (simp add: add_pos_nonneg)
qed

lemma sum_list_divide: "sum_list (map (\<lambda>x. f x / (c::real)) xs) = sum_list (map f xs) / c"
  by (induction xs) (simp_all add: add_divide_distrib)

lemma softmax_sum: "xs \<noteq> [] \<Longrightarrow> sum_list (softmax xs) = 1"
  using sum_list_exp_pos [of xs] by (simp add: softmax_def sum_list_divide)

lemma softmax_pos: "x \<in> set (softmax xs) \<Longrightarrow> 0 < x"
proof -
  assume "x \<in> set (softmax xs)"
  then obtain y where y: "y \<in> set xs" "x = exp y / sum_list (map exp xs)"
    by (auto simp: softmax_def)
  then have "xs \<noteq> []" by auto
  then show ?thesis using y sum_list_exp_pos [of xs] by simp
qed

lemma softmax_distribution: "xs \<noteq> [] \<Longrightarrow> is_distribution (softmax xs)"
  using softmax_pos [of _ xs] by (auto simp: is_distribution_def softmax_sum less_imp_le)

lemma sum_list_blend:
  "length xs = length ys \<Longrightarrow>
   sum_list (vadd (smul a xs) (smul b ys)) = a * sum_list xs + b * sum_list ys"
  by (induction xs ys rule: list_induct2) (simp_all add: vadd_def smul_def algebra_simps)

lemma set_blend_nonneg:
  assumes "0 \<le> a" "0 \<le> b" "\<forall>x\<in>set xs. 0 \<le> x" "\<forall>y\<in>set ys. 0 \<le> y"
    and "z \<in> set (vadd (smul a xs) (smul b ys))"
  shows "0 \<le> z"
proof -
  from assms(5) obtain x y where "x \<in> set xs" "y \<in> set ys" "z = a * x + b * y"
    by (auto simp: vadd_def smul_def zip_map1 zip_map2 dest: set_zip_leftD set_zip_rightD)
  then show ?thesis using assms(1-4) by simp
qed

lemma last_softmax_bounds:
  assumes "xs \<noteq> []"
  shows "0 < last (softmax xs)" "last (softmax xs) \<le> 1"
proof -
  have ne: "softmax xs \<noteq> []" using assms by (simp add: softmax_def)
  then have mem: "last (softmax xs) \<in> set (softmax xs)" by simp
  then show "0 < last (softmax xs)" by (rule softmax_pos)
  have "sum_list (butlast (softmax xs)) + last (softmax xs) = sum_list (softmax xs)"
    using ne by (metis append_butlast_last_id sum_list.append sum_list.Cons sum_list.Nil add.right_neutral)
  moreover have "0 \<le> sum_list (butlast (softmax xs))"
    using softmax_pos [of _ xs] by (intro sum_list_nonneg) (auto dest: in_set_butlastD less_imp_le)
  ultimately show "last (softmax xs) \<le> 1" using softmax_sum [OF assms] by linarith
qed


lemma length_msum [simp]: "length (msum n d ms) = n"
  by (simp add: msum_def)

lemma length_R_i: "length (R_i B D r_i) = min B (length r_i)"
  by (simp add: R_i_def)

lemma R_i_rows:
  assumes "R \<in> set (R_i B D r_i)"
  shows "\<exists>xs. length xs = length D \<and> R = softmax xs"
proof -
  from assms obtain M v where "(M, v) \<in> set (zip (replicate B D) r_i)" "R = softmax (mv M v)"
    by (auto simp: R_i_def)
  moreover from this have "M = D" by (auto dest!: set_zip_leftD)
  ultimately have "length (mv D v) = length D \<and> R = softmax (mv D v)" by (simp add: mv_def)
  then show ?thesis by blast
qed

lemma length_p_i_r: "length (p_i_r d n Wr g_e p) = min (length g_e) (length p)"
  by (simp add: p_i_r_def)

lemma p_i_r_rows:
  assumes "row \<in> set (p_i_r d n Wr g_e p)"
  shows "\<exists>xs. length xs = n \<and> row = softmax xs"
proof -
  from assms obtain g_b p_b where
    "row = softmax (map (\<lambda>v. dot v Wr)
       (msum n d (map2 (\<lambda>g_y p_y. map (map (\<lambda>x. x * p_y)) g_y) g_b p_b)))"
    by (auto simp: p_i_r_def)
  moreover have "length (map (\<lambda>v. dot v Wr)
       (msum n d (map2 (\<lambda>g_y p_y. map (map (\<lambda>x. x * p_y)) g_y) g_b p_b))) = n" by simp
  ultimately show ?thesis by blast
qed

lemma length_gamma_i_s:
  "length (gamma_i_s d n L S pW prop_R r_i) = min (length S) (min (length prop_R) (length r_i))"
  by (simp add: gamma_i_s_def)

lemma gamma_i_s_rows: "g \<in> set (gamma_i_s d n L S pW prop_R r_i) \<Longrightarrow> length g = n"
  by (auto simp: gamma_i_s_def)

lemma length_gamma_i_e:
  "length (gamma_i_e d B E WL r_i) = min (length E) (min B (length r_i))"
  by (simp add: gamma_i_e_def)

lemma length_p_i_s: "length (p_i_s Ws g_s) = length g_s"
  by (simp add: p_i_s_def)

lemma p_i_s_rows:
  assumes "row \<in> set (p_i_s Ws g_s)"
  shows "\<exists>g\<in>set g_s. \<exists>xs. length xs = length g \<and> row = softmax xs"
proof -
  from assms obtain g where g: "g \<in> set g_s" "row = softmax (map (\<lambda>v. dot v Ws) g)"
    by (auto simp: p_i_s_def)
  have "length (map (\<lambda>v. dot v Ws) g) = length g" by simp
  with g show ?thesis by blast
qed

lemma length_blend: "length (blend rp pr ps) = min (length rp) (min (length pr) (length ps))"
  by (simp add: blend_def)

lemma blend_nth:
  assumes "b < length rp" "b < length pr" "b < length ps"
  shows "blend rp pr ps ! b = vadd (smul (rp ! b) (pr ! b)) (smul (1 - rp ! b) (ps ! b))"
  using assms by (simp add: blend_def)

lemma blend_rows:
  assumes "row \<in> set (blend rp pr ps)"
  shows "\<exists>a\<in>set rp. \<exists>x\<in>set pr. \<exists>y\<in>set ps. row = vadd (smul a x) (smul (1 - a) y)"
proof -
  from assms obtain a x y where z: "(a, x, y) \<in> set (zip rp (zip pr ps))"
    and row: "row = vadd (smul a x) (smul (1 - a) y)"
    by (auto simp: blend_def)
  from z have "a \<in> set rp" by (rule set_zip_leftD)
  moreover from z have "(x, y) \<in> set (zip pr ps)" by (rule set_zip_rightD)
  then have "x \<in> set pr" "y \<in> set ps" by (auto dest: set_zip_leftD set_zip_rightD)
  ultimately show ?thesis using row by blast
qed

lemma blend_distribution:
  assumes "0 \<le> a" "a \<le> 1" "is_distribution x" "is_distribution y" "length x = length y"
  shows "is_distribution (vadd (smul a x) (smul (1 - a) y))"
  unfolding is_distribution_def
proof
  show "\<forall>z\<in>set (vadd (smul a x) (smul (1 - a) y)). 0 \<le> z"
    using set_blend_nonneg [of a "1 - a" x y] assms by (auto simp: is_distribution_def)
  show "sum_list (vadd (smul a x) (smul (1 - a) y)) = 1"
    using assms by (simp add: sum_list_blend is_distribution_def)
qed

lemma length_vadd_smul: "length (vadd (smul a x) (smul b y)) = min (length x) (length y)"
  by (simp add: vadd_def smul_def)

lemma p_0_distribution: "0 < n \<Longrightarrow> is_distribution_batch B n (p_0 B n)"
  by (auto simp: is_distribution_batch_def is_mat_def p_0_def is_distribution_def sum_list_replicate)

lemma step_distribution:
  assumes v: "valid_input hp L n D S E r" and p: "length p = BATCH hp"
  shows "is_distribution_batch (BATCH hp) n (step hp L n w D S E r i p)"
proof -
  let ?B = "BATCH hp" and ?d = "EMBD_DIM hp"
  let ?r_i = "column i r"
  let ?R = "R_i ?B D ?r_i"
  let ?pr = "p_i_r ?d n (W_r w) (gamma_i_e ?d ?B E (W_L_plus_1 w) ?r_i) p"
  let ?ps = "p_i_s (W_s w) (gamma_i_s ?d n L S (property_W w) (property_R_i ?R) ?r_i)"
  have st: "step hp L n w D S E r i p = blend (r_i_prime ?R) ?pr ?ps"
    by (simp add: step_def Let_def)
  from v have n: "0 < n" and D: "D \<noteq> []" and lS: "length S = ?B" and lE: "length E = ?B"
    and lr: "length r = ?B"
    by (auto simp: valid_input_def is_mat_def is_tensor3_def is_tensor4_def)
  have lri: "length ?r_i = ?B" using lr by (simp add: column_def)
  have lR: "length ?R = ?B" using lri by (simp add: length_R_i)
  have len: "length (blend (r_i_prime ?R) ?pr ?ps) = ?B"
    using lR lri lS lE p
    by (simp add: length_blend r_i_prime_def length_p_i_r length_p_i_s length_gamma_i_s
        length_gamma_i_e property_R_i_def)
  have rows: "length row = n \<and> is_distribution row" if "row \<in> set (blend (r_i_prime ?R) ?pr ?ps)" for row
  proof -
    from blend_rows [OF that] obtain a x y where a: "a \<in> set (r_i_prime ?R)" and x: "x \<in> set ?pr"
      and y: "y \<in> set ?ps" and row: "row = vadd (smul a x) (smul (1 - a) y)" by blast
    from a obtain Rb where "Rb \<in> set ?R" "a = last Rb" by (auto simp: r_i_prime_def)
    with R_i_rows [of Rb ?B D ?r_i] obtain xs where "length xs = length D" "a = last (softmax xs)"
      by blast
    with D have "xs \<noteq> []" by auto
    note \<open>a = last (softmax xs)\<close> this
    then have a01: "0 \<le> a" "a \<le> 1" using last_softmax_bounds [of xs] by auto
    from p_i_r_rows [OF x] obtain xs where xs: "length xs = n" "x = softmax xs" by blast
    from p_i_s_rows [OF y] obtain g ys where "g \<in> set (gamma_i_s ?d n L S (property_W w) (property_R_i ?R) ?r_i)"
      "length ys = length g" "y = softmax ys" by blast
    then have ys: "length ys = n" "y = softmax ys" by (auto dest: gamma_i_s_rows)
    have dx: "is_distribution x" and dy: "is_distribution y"
      using xs ys n by (auto intro: softmax_distribution)
    have lx: "length x = n" unfolding xs(2) length_softmax by (rule xs(1))
    have ly: "length y = n" unfolding ys(2) length_softmax by (rule ys(1))
    have "is_distribution row" unfolding row
      by (rule blend_distribution [OF a01 dx dy]) (simp add: lx ly)
    moreover have "length row = n" unfolding row length_vadd_smul by (simp add: lx ly)
    ultimately show ?thesis by simp
  qed
  show ?thesis unfolding st is_distribution_batch_def is_mat_def
  proof (intro conjI ballI)
    show "length (blend (r_i_prime ?R) ?pr ?ps) = ?B" by (rule len)
    show "length row = n" if "row \<in> set (blend (r_i_prime ?R) ?pr ?ps)" for row
      using rows [OF that] by (rule conjunct1)
    show "is_distribution row" if "row \<in> set (blend (r_i_prime ?R) ?pr ?ps)" for row
      using rows [OF that] by (rule conjunct2)
  qed
qed


lemma recurrent_loop_0: "recurrent_loop hp L n w D S E r 0 = p_0 (BATCH hp) n"
  by (simp add: recurrent_loop_def)

lemma recurrent_loop_Suc:
  "recurrent_loop hp L n w D S E r (Suc k) = step hp L n w D S E r k (recurrent_loop hp L n w D S E r k)"
  by (simp add: recurrent_loop_def)

lemma recurrent_loop_distribution:
  assumes "valid_input hp L n D S E r"
  shows "is_distribution_batch (BATCH hp) n (recurrent_loop hp L n w D S E r k)"
proof (induction k)
  case 0
  from assms have "0 < n" by (simp add: valid_input_def)
  then show ?case by (simp add: recurrent_loop_0 p_0_distribution)
next
  case (Suc k)
  then have "length (recurrent_loop hp L n w D S E r k) = BATCH hp"
    by (simp add: is_distribution_batch_def is_mat_def)
  then show ?case unfolding recurrent_loop_Suc by (rule step_distribution [OF assms])
qed

text \<open>
  Claim C2. For every valid input the node distribution is a probability distribution for
  every batch element, with entries that are not negative and sum to one: the uniform
  \<open>p_0\<close>, the distribution the notebook computes from it, and the distribution after
  every round \<open>i < N\<close> of the announced loop.
\<close>

theorem p_i_valid_distribution:
  assumes "valid_input hp L n D S E r"
  shows "is_distribution_batch (BATCH hp) n (p_0 (BATCH hp) n) \<and>
         is_distribution_batch (BATCH hp) n (model_simulation hp L n w D S E r) \<and>
         (\<forall>i<N hp. is_distribution_batch (BATCH hp) n (recurrent_loop hp L n w D S E r (Suc i)))"
proof (intro conjI allI impI)
  from assms have n: "0 < n" by (simp add: valid_input_def)
  then show p0: "is_distribution_batch (BATCH hp) n (p_0 (BATCH hp) n)" by (rule p_0_distribution)
  then have "length (p_0 (BATCH hp) n) = BATCH hp" by (simp add: is_distribution_batch_def is_mat_def)
  then show "is_distribution_batch (BATCH hp) n (model_simulation hp L n w D S E r)"
    unfolding model_simulation_def by (rule step_distribution [OF assms])
  show "is_distribution_batch (BATCH hp) n (recurrent_loop hp L n w D S E r (Suc i))" for i
    by (rule recurrent_loop_distribution [OF assms])
qed


lemma example_valid_input: "valid_input default_hyperparams 2 3 example_D example_S example_E example_r"
  by (simp add: valid_input_def default_hyperparams_def is_mat_def is_tensor3_def is_tensor4_def
      example_D_def example_S_def example_E_def example_r_def half_def)

theorem p_i_valid_distribution_witness:
  "valid_input default_hyperparams 2 3 example_D example_S example_E example_r \<and>
   is_distribution_batch 32 3 (p_0 32 3) \<and>
   is_distribution_batch 32 3
     (model_simulation default_hyperparams 2 3 example_weights example_D example_S example_E example_r) \<and>
   is_distribution_batch 32 3
     (recurrent_loop default_hyperparams 2 3 example_weights example_D example_S example_E example_r (Suc 0)) \<and>
   is_distribution_batch 32 3
     (recurrent_loop default_hyperparams 2 3 example_weights example_D example_S example_E example_r (Suc 1)) \<and>
   is_distribution_batch 32 3
     (recurrent_loop default_hyperparams 2 3 example_weights example_D example_S example_E example_r (Suc 2))"
proof -
  have t: "is_distribution_batch 32 3 (p_0 32 3) \<and>
     is_distribution_batch 32 3
       (model_simulation default_hyperparams 2 3 example_weights example_D example_S example_E example_r) \<and>
     (\<forall>i<3. is_distribution_batch 32 3
       (recurrent_loop default_hyperparams 2 3 example_weights example_D example_S example_E example_r (Suc i)))"
    using p_i_valid_distribution [OF example_valid_input, of example_weights]
    by (simp add: default_hyperparams_def)
  have "(0::nat) < 3" "(1::nat) < 3" "(2::nat) < 3" by simp_all
  with t show ?thesis using example_valid_input by blast
qed

lemma vadd_smul_nth:
  assumes "x < length u" "x < length v"
  shows "vadd (smul a u) (smul c v) ! x = a * u ! x + c * v ! x"
  using assms by (simp add: vadd_def smul_def)

lemma vadd_smul_0: "length u = length v \<Longrightarrow> vadd (smul 0 u) (smul 1 v) = v"
  by (induction u v rule: list_induct2) (simp_all add: vadd_def smul_def)

lemma vadd_smul_1: "length u = length v \<Longrightarrow> vadd (smul 1 u) (smul 0 v) = u"
  by (induction u v rule: list_induct2) (simp_all add: vadd_def smul_def)

text \<open>
  Claim C4. The distribution a step returns is the blend of its \<open>r_i'\<close>, \<open>p_i^r\<close> and
  \<open>p_i^s\<close>; for every batch element \<open>b\<close> and node \<open>x\<close> the blend is
  \<open>r_i' \<cdot> p_i^r + (1 - r_i') \<cdot> p_i^s\<close>; where \<open>r_i'\<close> is 0 the blend is \<open>p_i^s\<close>, where it is
  1 the blend is \<open>p_i^r\<close>.
\<close>

theorem blend_property:
  assumes "length rp = B" "is_mat B n pr" "is_mat B n ps" "b < B"
  shows "step hp L n w D S E r i p =
           blend (r_i_prime (R_i (BATCH hp) D (column i r)))
             (p_i_r (EMBD_DIM hp) n (W_r w)
                (gamma_i_e (EMBD_DIM hp) (BATCH hp) E (W_L_plus_1 w) (column i r)) p)
             (p_i_s (W_s w)
                (gamma_i_s (EMBD_DIM hp) n L S (property_W w)
                   (property_R_i (R_i (BATCH hp) D (column i r))) (column i r))) \<and>
         length (blend rp pr ps ! b) = n \<and>
         (\<forall>x<n. blend rp pr ps ! b ! x = rp ! b * pr ! b ! x + (1 - rp ! b) * ps ! b ! x) \<and>
         (rp ! b = 0 \<longrightarrow> blend rp pr ps ! b = ps ! b) \<and>
         (rp ! b = 1 \<longrightarrow> blend rp pr ps ! b = pr ! b)"
proof -
  from assms have lb: "b < length rp" "b < length pr" "b < length ps"
    and ln: "length (pr ! b) = n" "length (ps ! b) = n"
    by (auto simp: is_mat_def)
  have nth: "blend rp pr ps ! b = vadd (smul (rp ! b) (pr ! b)) (smul (1 - rp ! b) (ps ! b))"
    using lb by (rule blend_nth)
  have "step hp L n w D S E r i p =
           blend (r_i_prime (R_i (BATCH hp) D (column i r)))
             (p_i_r (EMBD_DIM hp) n (W_r w)
                (gamma_i_e (EMBD_DIM hp) (BATCH hp) E (W_L_plus_1 w) (column i r)) p)
             (p_i_s (W_s w)
                (gamma_i_s (EMBD_DIM hp) n L S (property_W w)
                   (property_R_i (R_i (BATCH hp) D (column i r))) (column i r)))"
    by (simp add: step_def Let_def)
  moreover have "length (blend rp pr ps ! b) = n"
    unfolding nth length_vadd_smul using ln by simp
  moreover have "\<forall>x<n. blend rp pr ps ! b ! x = rp ! b * pr ! b ! x + (1 - rp ! b) * ps ! b ! x"
    unfolding nth using ln by (simp add: vadd_smul_nth)
  moreover have "rp ! b = 0 \<longrightarrow> blend rp pr ps ! b = ps ! b"
    unfolding nth using ln by (simp add: vadd_smul_0)
  moreover have "rp ! b = 1 \<longrightarrow> blend rp pr ps ! b = pr ! b"
    unfolding nth using ln by (simp add: vadd_smul_1)
  ultimately show ?thesis by (intro conjI)
qed

theorem blend_property_witness:
  "is_mat 2 2 [[1 / 4, 3 / 4], [1 / 2, 1 / 2 :: real]] \<and> is_mat 2 2 [[1, 0], [0, 1 :: real]] \<and>
   blend [0, 1] [[1 / 4, 3 / 4], [1 / 2, 1 / 2]] [[1, 0], [0, 1]] ! 0 = [1, 0] \<and>
   blend [0, 1] [[1 / 4, 3 / 4], [1 / 2, 1 / 2]] [[1, 0], [0, 1]] ! 1 = [1 / 2, 1 / 2]"
proof -
  have m: "is_mat 2 2 [[1 / 4, 3 / 4], [1 / 2, 1 / 2 :: real]]" "is_mat 2 2 [[1, 0], [0, 1 :: real]]"
    by (simp_all add: is_mat_def)
  have l: "length [0, 1 :: real] = 2" by simp
  have "blend [0, 1] [[1 / 4, 3 / 4], [1 / 2, 1 / 2]] [[1, 0], [0, 1]] ! 0 = [1, 0]"
    using blend_property [OF l m, of 0] by simp
  moreover have "blend [0, 1] [[1 / 4, 3 / 4], [1 / 2, 1 / 2]] [[1, 0], [0, 1]] ! 1 = [1 / 2, 1 / 2]"
    using blend_property [OF l m, of 1] by simp
  ultimately show ?thesis using m by simp
qed

lemma R_i_nth:
  assumes "b < B" "b < length r_i"
  shows "R_i B D r_i ! b = softmax (mv D (r_i ! b))"
  using assms by (simp add: R_i_def)

lemma property_R_N_nth:
  assumes "b < BATCH hp" "b < length r"
  shows "property_R_N hp D r ! b = butlast (softmax (mv D (r ! b ! N hp)))"
  using assms by (simp add: property_R_N_def length_R_i R_i_nth column_def)

lemma sum_list_butlast_softmax:
  assumes "xs \<noteq> []"
  shows "sum_list (butlast (softmax xs)) = 1 - last (softmax xs)"
proof -
  have ne: "softmax xs \<noteq> []" using assms by (simp add: softmax_def)
  have "sum_list (butlast (softmax xs) @ [last (softmax xs)]) = sum_list (softmax xs)"
    using ne by simp
  then show ?thesis using softmax_sum [OF assms] by simp
qed

lemma dot_replicate: "length p = k \<Longrightarrow> dot p (replicate k c) = sum_list p * c"
proof (induction p arbitrary: k)
  case Nil
  then show ?case by (simp add: dot_def)
next
  case (Cons a p)
  then obtain k' where k: "k = Suc k'" "length p = k'" by (cases k) auto
  with Cons.IH [of k'] show ?case by (simp add: dot_def algebra_simps)
qed

lemma vm_replicate:
  assumes "length p = k" "length v = d"
  shows "vm d p (replicate k v) = smul (sum_list p) v"
proof (rule nth_equalityI)
  show "length (vm d p (replicate k v)) = length (smul (sum_list p) v)"
    using assms by (simp add: vm_def smul_def)
  fix i assume "i < length (vm d p (replicate k v))"
  then have i: "i < d" by (simp add: vm_def)
  have "column i (replicate k v) = replicate k (v ! i)" by (simp add: column_def)
  then show "vm d p (replicate k v) ! i = smul (sum_list p) v ! i"
    using i assms by (simp add: vm_def smul_def dot_replicate)
qed

lemma column_map2_smul_replicate:
  "length Rs = k \<Longrightarrow> column i (map2 smul Rs (replicate k s)) = map (\<lambda>c. c * s ! i) Rs" if "i < length s"
proof (induction Rs arbitrary: k)
  case Nil
  then show ?case by (simp add: column_def)
next
  case (Cons a Rs)
  then obtain k' where k: "k = Suc k'" "length Rs = k'" by (cases k) auto
  with Cons.IH [of k'] that show ?case by (simp add: column_def smul_def)
qed

lemma sum_list_mult_const_right: "sum_list (map (\<lambda>c. c * (a::real)) xs) = sum_list xs * a"
  by (induction xs) (simp_all add: algebra_simps)

lemma vsum_map2_smul_replicate:
  assumes "length Rs = k" "length s = d"
  shows "vsum d (map2 smul Rs (replicate k s)) = smul (sum_list Rs) s"
proof (rule nth_equalityI)
  show "length (vsum d (map2 smul Rs (replicate k s))) = length (smul (sum_list Rs) s)"
    using assms by (simp add: vsum_def smul_def)
  fix i assume "i < length (vsum d (map2 smul Rs (replicate k s)))"
  then have i: "i < d" by (simp add: vsum_def)
  have "sum_list (column i (map2 smul Rs (replicate k s))) = sum_list Rs * s ! i"
    using i assms by (simp add: column_map2_smul_replicate sum_list_mult_const_right)
  moreover have "smul (sum_list Rs) s ! i = sum_list Rs * s ! i"
    using i assms by (simp add: smul_def)
  ultimately show "vsum d (map2 smul Rs (replicate k s)) ! i = smul (sum_list Rs) s ! i"
    using i by (simp add: vsum_def)
qed

lemma m_summary_nth:
  assumes "b < length p" "b < length R" "b < length S"
  shows "m_summary d p R S ! b = vm d (p ! b) (map (\<lambda>s. vsum d (map2 smul (R ! b) s)) (S ! b))"
  using assms by (simp add: m_summary_def)

text \<open>
  Claim C10. For every batch element the pooling weights \<open>property_R_N\<close> are the softmax
  over all \<open>L + 2\<close> property types without its last entry, the one of the relations: they
  are \<open>L + 1\<close> numbers that sum to one minus that entry, which is less than one. Where every
  property state of every node is the same vector \<open>s\<close>, the summary \<open>m\<close> is \<open>s\<close> scaled by
  that sum, not \<open>s\<close>.
\<close>

theorem property_R_N_mass:
  assumes "valid_input hp L n D S E r" "b < BATCH hp"
  shows "property_R_N hp D r ! b = butlast (softmax (mv D (r ! b ! N hp))) \<and>
         length (property_R_N hp D r ! b) = L + 1 \<and>
         sum_list (property_R_N hp D r ! b) = 1 - last (softmax (mv D (r ! b ! N hp))) \<and>
         sum_list (property_R_N hp D r ! b) < 1 \<and>
         (is_distribution_batch (BATCH hp) n p \<and> length s = EMBD_DIM hp \<and>
          S ! b = replicate n (replicate (L + 1) s) \<longrightarrow>
          m_summary (EMBD_DIM hp) p (property_R_N hp D r) S ! b =
            smul (sum_list (property_R_N hp D r ! b)) s)"
proof -
  let ?xs = "mv D (r ! b ! N hp)"
  let ?R = "property_R_N hp D r"
  from assms have lr: "length r = BATCH hp" and lS: "length S = BATCH hp" and lD: "length D = L + 2"
    by (auto simp: valid_input_def is_mat_def is_tensor3_def is_tensor4_def)
  have eq: "?R ! b = butlast (softmax ?xs)"
    using assms(2) lr by (simp add: property_R_N_nth)
  have lxs: "length ?xs = L + 2" using lD by (simp add: mv_def)
  then have ne: "?xs \<noteq> []" by auto
  have len: "length (?R ! b) = L + 1" unfolding eq using lxs by simp
  have sum: "sum_list (?R ! b) = 1 - last (softmax ?xs)"
    unfolding eq by (rule sum_list_butlast_softmax [OF ne])
  have lt: "sum_list (?R ! b) < 1"
    unfolding sum using last_softmax_bounds(1) [OF ne] by simp
  have pool: "m_summary (EMBD_DIM hp) p ?R S ! b = smul (sum_list (?R ! b)) s"
    if p: "is_distribution_batch (BATCH hp) n p" and s: "length s = EMBD_DIM hp"
      and Sb: "S ! b = replicate n (replicate (L + 1) s)"
  proof -
    from p assms(2) have lp: "length p = BATCH hp" and lpb: "length (p ! b) = n"
      and spb: "sum_list (p ! b) = 1"
      by (auto simp: is_distribution_batch_def is_mat_def is_distribution_def)
    have lRN: "length ?R = BATCH hp" using lr by (simp add: property_R_N_def length_R_i column_def)
    have "m_summary (EMBD_DIM hp) p ?R S ! b =
            vm (EMBD_DIM hp) (p ! b) (map (\<lambda>s. vsum (EMBD_DIM hp) (map2 smul (?R ! b) s)) (S ! b))"
      using assms(2) lp lRN lS by (simp add: m_summary_nth)
    also have "\<dots> = vm (EMBD_DIM hp) (p ! b) (replicate n (smul (sum_list (?R ! b)) s))"
      unfolding Sb map_replicate vsum_map2_smul_replicate [OF len s] ..
    also have "\<dots> = smul (sum_list (p ! b)) (smul (sum_list (?R ! b)) s)"
      using lpb s by (simp add: vm_replicate smul_def)
    also have "\<dots> = smul (sum_list (?R ! b)) s" unfolding spb by (simp add: smul_def)
    finally show ?thesis .
  qed
  from eq len sum lt pool show ?thesis by blast
qed


theorem property_R_N_mass_witness:
  "valid_input default_hyperparams 2 3 example_D example_S example_E example_r \<and>
   is_distribution_batch 32 3 (p_0 32 3) \<and>
   example_S ! 0 = replicate 3 (replicate 3 (half 7)) \<and>
   length (property_R_N default_hyperparams example_D example_r ! 0) = 3 \<and>
   sum_list (property_R_N default_hyperparams example_D example_r ! 0) < 1 \<and>
   m_summary 7 (p_0 32 3) (property_R_N default_hyperparams example_D example_r) example_S ! 0 =
     smul (sum_list (property_R_N default_hyperparams example_D example_r ! 0)) (half 7)"
proof -
  have b: "0 < BATCH default_hyperparams" by (simp add: default_hyperparams_def)
  have p: "is_distribution_batch 32 3 (p_0 32 3)" by (rule p_0_distribution) simp
  have S0: "example_S ! 0 = replicate 3 (replicate 3 (half 7))" by (simp add: example_S_def)
  have s: "length (half 7) = 7" by (simp add: half_def)
  have hp: "BATCH default_hyperparams = 32" "EMBD_DIM default_hyperparams = 7"
    by (simp_all add: default_hyperparams_def)
  note t = property_R_N_mass [OF example_valid_input b, of "p_0 32 3" "half 7", unfolded hp]
  have S0': "example_S ! 0 = replicate 3 (replicate (2 + 1) (half 7))" using S0 by simp
  from t p S0' s have
    "length (property_R_N default_hyperparams example_D example_r ! 0) = 2 + 1 \<and>
     sum_list (property_R_N default_hyperparams example_D example_r ! 0) < 1 \<and>
     m_summary 7 (p_0 32 3) (property_R_N default_hyperparams example_D example_r) example_S ! 0 =
       smul (sum_list (property_R_N default_hyperparams example_D example_r ! 0)) (half 7)"
    by blast
  then show ?thesis using example_valid_input p S0 by simp
qed

lemma length_Linear: "length (Linear M c x) = min (length M) (length c)"
  by (simp add: Linear_def vadd_def mv_def)

lemma length_classifier:
  "length (classifier w x) = min (length (classifier_2_weight w)) (length (classifier_2_bias w))"
  by (simp add: classifier_def length_Linear)

lemma length_m_summary:
  "length (m_summary d p R S) = min (length p) (min (length R) (length S))"
  by (simp add: m_summary_def)

lemma length_property_R_N: "length (property_R_N hp D r) = min (BATCH hp) (length r)"
  by (simp add: property_R_N_def length_R_i column_def)

lemma length_pre_logits: "length (pre_logits w m q) = min (length m) (length q)"
  by (simp add: pre_logits_def)

lemma pre_logits_nth:
  assumes "b < length m" "b < length q"
  shows "pre_logits w m q ! b = classifier w (m ! b @ q ! b)"
  using assms by (simp add: pre_logits_def)

lemma step_cong_instruction:
  assumes "column i r' = column i r"
  shows "step hp L n w D S E r' i p = step hp L n w D S E r i p"
  by (simp add: step_def assms)

lemma column_eqI:
  assumes "length r' = length r" "\<forall>c<length r. r' ! c ! i = r ! c ! i"
  shows "column i r' = column i r"
  unfolding column_def using assms by (intro nth_equalityI) simp_all

lemma recurrent_loop_cong:
  assumes "\<forall>i<k. column i r' = column i r"
  shows "recurrent_loop hp L n w D S E r' k = recurrent_loop hp L n w D S E r k"
  using assms
proof (induction k)
  case 0
  show ?case by (simp add: recurrent_loop_0)
next
  case (Suc k)
  from Suc.prems have c: "column k r' = column k r" by blast
  from Suc.prems have "\<forall>i<k. column i r' = column i r" by (meson less_Suc_eq)
  then have IH: "recurrent_loop hp L n w D S E r' k = recurrent_loop hp L n w D S E r k"
    by (rule Suc.IH)
  show ?case unfolding recurrent_loop_Suc IH by (rule step_cong_instruction [OF c])
qed

text \<open>The final classifier at one batch element, its shape, and the instructions the
  simulation reads.\<close>

lemma final_classifier_unfolded:
  assumes "valid_input hp L n D S E r" "valid_weights hp L w"
    and "is_mat (BATCH hp) n p" "is_mat (BATCH hp) (EMBD_DIM hp) q" "b < BATCH hp"
  shows "final_classifier hp w D S r p q ! b =
           Linear (classifier_2_weight w) (classifier_2_bias w)
             (map elu (Linear (classifier_0_weight w) (classifier_0_bias w)
                (vm (EMBD_DIM hp) (p ! b)
                    (map (\<lambda>s. vsum (EMBD_DIM hp)
                            (map2 smul (butlast (softmax (mv D (r ! b ! N hp)))) s)) (S ! b))
                 @ q ! b))) \<and>
         length (final_classifier hp w D S r p q) = BATCH hp \<and>
         length (final_classifier hp w D S r p q ! b) = OUT_DIM hp \<and>
         (0 < N hp \<and> length r' = length r \<and> (\<forall>c<length r. \<forall>i<N hp. r' ! c ! i = r ! c ! i) \<longrightarrow>
            model_simulation hp L n w D S E r' = model_simulation hp L n w D S E r \<and>
            recurrent_loop hp L n w D S E r' (N hp) = recurrent_loop hp L n w D S E r (N hp))"
proof -
  let ?d = "EMBD_DIM hp"
  let ?R = "property_R_N hp D r"
  let ?m = "m_summary ?d p ?R S"
  from assms have lr: "length r = BATCH hp" and lS: "length S = BATCH hp"
    and lp: "length p = BATCH hp" and lq: "length q = BATCH hp"
    by (auto simp: valid_input_def is_mat_def is_tensor3_def is_tensor4_def)
  from assms(2) have lw: "length (classifier_2_weight w) = OUT_DIM hp"
    "length (classifier_2_bias w) = OUT_DIM hp"
    by (auto simp: valid_weights_def is_mat_def)
  have lR: "length ?R = BATCH hp" using lr by (simp add: length_property_R_N)
  have lm: "length ?m = BATCH hp" using lp lR lS by (simp add: length_m_summary)
  have fc: "final_classifier hp w D S r p q = pre_logits w ?m q"
    by (simp add: final_classifier_def)
  have mb: "?m ! b = vm ?d (p ! b) (map (\<lambda>s. vsum ?d (map2 smul (?R ! b) s)) (S ! b))"
    using assms(5) lp lR lS by (simp add: m_summary_nth)
  have Rb: "?R ! b = butlast (softmax (mv D (r ! b ! N hp)))"
    using assms(5) lr by (simp add: property_R_N_nth)
  have "final_classifier hp w D S r p q ! b = classifier w (?m ! b @ q ! b)"
    unfolding fc using assms(5) lm lq by (simp add: pre_logits_nth)
  then have 1: "final_classifier hp w D S r p q ! b =
           Linear (classifier_2_weight w) (classifier_2_bias w)
             (map elu (Linear (classifier_0_weight w) (classifier_0_bias w)
                (vm ?d (p ! b)
                    (map (\<lambda>s. vsum ?d (map2 smul (butlast (softmax (mv D (r ! b ! N hp)))) s)) (S ! b))
                 @ q ! b)))"
    unfolding mb Rb classifier_def .
  have 2: "length (final_classifier hp w D S r p q) = BATCH hp"
    unfolding fc using lm lq by (simp add: length_pre_logits)
  have 3: "length (final_classifier hp w D S r p q ! b) = OUT_DIM hp"
    unfolding 1 using lw by (simp add: length_Linear)
  have 4: "model_simulation hp L n w D S E r' = model_simulation hp L n w D S E r \<and>
           recurrent_loop hp L n w D S E r' (N hp) = recurrent_loop hp L n w D S E r (N hp)"
    if N: "0 < N hp" and l: "length r' = length r"
      and eq: "\<forall>c<length r. \<forall>i<N hp. r' ! c ! i = r ! c ! i"
  proof -
    have col: "column i r' = column i r" if "i < N hp" for i
      using l eq that by (intro column_eqI) simp_all
    have "model_simulation hp L n w D S E r' = model_simulation hp L n w D S E r"
      unfolding model_simulation_def using col [OF N] by (rule step_cong_instruction)
    moreover have "recurrent_loop hp L n w D S E r' (N hp) = recurrent_loop hp L n w D S E r (N hp)"
      using col by (intro recurrent_loop_cong) simp
    ultimately show ?thesis ..
  qed
  have 5: "0 < N hp \<and> length r' = length r \<and> (\<forall>c<length r. \<forall>i<N hp. r' ! c ! i = r ! c ! i) \<longrightarrow>
            model_simulation hp L n w D S E r' = model_simulation hp L n w D S E r \<and>
            recurrent_loop hp L n w D S E r' (N hp) = recurrent_loop hp L n w D S E r (N hp)"
  proof (intro impI, elim conjE)
    assume "0 < N hp" "length r' = length r" "\<forall>c<length r. \<forall>i<N hp. r' ! c ! i = r ! c ! i"
    then show "model_simulation hp L n w D S E r' = model_simulation hp L n w D S E r \<and>
      recurrent_loop hp L n w D S E r' (N hp) = recurrent_loop hp L n w D S E r (N hp)"
      by (rule 4)
  qed
  show ?thesis by (intro conjI) (rule 1, rule 2, rule 3, rule 5)
qed


lemma example_valid_weights: "valid_weights default_hyperparams 2 example_weights"
  by (simp add: valid_weights_def default_hyperparams_def example_weights_def is_mat_def
      is_tensor3_def quarter_def eye_def)

lemma column_append: "column i (xs @ ys) = column i xs @ column i ys"
  by (simp add: column_def)

lemma p_0_append: "p_0 (B1 + B2) n = p_0 B1 n @ p_0 B2 n"
  by (simp add: p_0_def replicate_add)

lemma R_i_append:
  "length r1 = B1 \<Longrightarrow> R_i (B1 + B2) D (r1 @ r2) = R_i B1 D r1 @ R_i B2 D r2"
  by (simp add: R_i_def replicate_add)

lemma r_i_prime_append: "r_i_prime (R1 @ R2) = r_i_prime R1 @ r_i_prime R2"
  by (simp add: r_i_prime_def)

lemma property_R_i_append: "property_R_i (R1 @ R2) = property_R_i R1 @ property_R_i R2"
  by (simp add: property_R_i_def)

lemma gamma_i_s_append:
  "length S1 = length R1 \<Longrightarrow> length R1 = length r1 \<Longrightarrow>
   gamma_i_s d n L (S1 @ S2) pW (R1 @ R2) (r1 @ r2) =
     gamma_i_s d n L S1 pW R1 r1 @ gamma_i_s d n L S2 pW R2 r2"
  by (simp add: gamma_i_s_def)

lemma gamma_i_e_append:
  "length E1 = B1 \<Longrightarrow> length r1 = B1 \<Longrightarrow>
   gamma_i_e d (B1 + B2) (E1 @ E2) WL (r1 @ r2) =
     gamma_i_e d B1 E1 WL r1 @ gamma_i_e d B2 E2 WL r2"
  by (simp add: gamma_i_e_def replicate_add)

lemma p_i_r_append:
  "length g1 = length p1 \<Longrightarrow>
   p_i_r d n Wr (g1 @ g2) (p1 @ p2) = p_i_r d n Wr g1 p1 @ p_i_r d n Wr g2 p2"
  by (simp add: p_i_r_def)

lemma p_i_s_append: "p_i_s Ws (g1 @ g2) = p_i_s Ws g1 @ p_i_s Ws g2"
  by (simp add: p_i_s_def)

lemma blend_append:
  "length a1 = length x1 \<Longrightarrow> length x1 = length y1 \<Longrightarrow>
   blend (a1 @ a2) (x1 @ x2) (y1 @ y2) = blend a1 x1 y1 @ blend a2 x2 y2"
  by (simp add: blend_def)

lemma m_summary_append:
  "length p1 = length R1 \<Longrightarrow> length R1 = length S1 \<Longrightarrow>
   m_summary d (p1 @ p2) (R1 @ R2) (S1 @ S2) = m_summary d p1 R1 S1 @ m_summary d p2 R2 S2"
  by (simp add: m_summary_def)

lemma pre_logits_append:
  "length m1 = length q1 \<Longrightarrow>
   pre_logits w (m1 @ m2) (q1 @ q2) = pre_logits w m1 q1 @ pre_logits w m2 q2"
  by (simp add: pre_logits_def)

lemma P_i_append:
  "length Q1 = B1 \<Longrightarrow>
   P_i d (B1 + B2) (Q1 @ Q2) W0 C = P_i d B1 Q1 W0 C @ P_i d B2 Q2 W0 C"
  by (simp add: P_i_def replicate_add)

lemma V_append:
  "length P1 = B1 \<Longrightarrow> length Q1 = B1 \<Longrightarrow>
   V d (B1 + B2) (P1 @ P2) (Q1 @ Q2) C = V d B1 P1 Q1 C @ V d B2 P2 Q2 C"
  by (simp add: V_def replicate_add)

lemma encoder_hidden_append:
  "encoder_hidden d cell (V1 @ V2) = encoder_hidden d cell V1 @ encoder_hidden d cell V2"
  by (simp add: encoder_hidden_def)

lemma q_context_append: "q_context (h1 @ h2) = q_context h1 @ q_context h2"
  by (simp add: q_context_def)

lemma decoder_h_append:
  "length q1 = length h1 \<Longrightarrow>
   decoder_h k cell (q1 @ q2) (h1 @ h2) = decoder_h k cell q1 h1 @ decoder_h k cell q2 h2"
  by (simp add: decoder_h_def)

lemma r_instructions_append:
  "length h1 = length V1 \<Longrightarrow>
   r_instructions d (h1 @ h2) (V1 @ V2) = r_instructions d h1 V1 @ r_instructions d h2 V2"
  by (simp add: r_instructions_def)

lemma length_P_i: "length (P_i d B Q W0 C) = min (length Q) B"
  by (simp add: P_i_def)

lemma length_V: "length (V d B P Q C) = min (length P) (min (length Q) B)"
  by (simp add: V_def)

lemma length_encoder_hidden: "length (encoder_hidden d cell V0) = length V0"
  by (simp add: encoder_hidden_def)

lemma length_q_context: "length (q_context h) = length h"
  by (simp add: q_context_def)

lemma length_decoder_h: "length (decoder_h k cell q h) = min (length q) (length h)"
  by (simp add: decoder_h_def)

lemma length_r_instructions: "length (r_instructions d h V0) = min (length h) (length V0)"
  by (simp add: r_instructions_def)

lemma length_column: "length (column i r) = length r"
  by (simp add: column_def)

lemma length_step:
  assumes "length S = BATCH hp" "length E = BATCH hp" "length r = BATCH hp" "length p = BATCH hp"
  shows "length (step hp L n w D S E r i p) = BATCH hp"
  using assms
  by (simp add: step_def Let_def length_blend r_i_prime_def property_R_i_def length_R_i
      length_p_i_r length_p_i_s length_gamma_i_s length_gamma_i_e length_column)

lemma step_append:
  assumes "length S1 = B1" "length E1 = B1" "length r1 = B1" "length p1 = B1"
  shows "step (hp\<lparr>BATCH := B1 + B2\<rparr>) L n w D (S1 @ S2) (E1 @ E2) (r1 @ r2) i (p1 @ p2) =
         step (hp\<lparr>BATCH := B1\<rparr>) L n w D S1 E1 r1 i p1 @
         step (hp\<lparr>BATCH := B2\<rparr>) L n w D S2 E2 r2 i p2"
proof -
  let ?c1 = "column i r1" and ?c2 = "column i r2"
  have lc: "length ?c1 = B1" using assms by (simp add: length_column)
  have R: "R_i (B1 + B2) D (?c1 @ ?c2) = R_i B1 D ?c1 @ R_i B2 D ?c2"
    using lc by (rule R_i_append)
  have lR: "length (R_i B1 D ?c1) = B1" using lc by (simp add: length_R_i)
  have gs: "gamma_i_s (EMBD_DIM hp) n L (S1 @ S2) (property_W w)
              (property_R_i (R_i B1 D ?c1) @ property_R_i (R_i B2 D ?c2)) (?c1 @ ?c2) =
            gamma_i_s (EMBD_DIM hp) n L S1 (property_W w) (property_R_i (R_i B1 D ?c1)) ?c1 @
            gamma_i_s (EMBD_DIM hp) n L S2 (property_W w) (property_R_i (R_i B2 D ?c2)) ?c2"
    using assms lc lR by (intro gamma_i_s_append) (simp_all add: property_R_i_def)
  have ge: "gamma_i_e (EMBD_DIM hp) (B1 + B2) (E1 @ E2) (W_L_plus_1 w) (?c1 @ ?c2) =
            gamma_i_e (EMBD_DIM hp) B1 E1 (W_L_plus_1 w) ?c1 @
            gamma_i_e (EMBD_DIM hp) B2 E2 (W_L_plus_1 w) ?c2"
    using assms lc by (intro gamma_i_e_append) simp_all
  have lge: "length (gamma_i_e (EMBD_DIM hp) B1 E1 (W_L_plus_1 w) ?c1) = B1"
    using assms lc by (simp add: length_gamma_i_e)
  have lgs: "length (gamma_i_s (EMBD_DIM hp) n L S1 (property_W w) (property_R_i (R_i B1 D ?c1)) ?c1) = B1"
    using assms lc lR by (simp add: length_gamma_i_s property_R_i_def)
  have sel: "\<And>B. BATCH (hp\<lparr>BATCH := B\<rparr>) = B" "\<And>B. EMBD_DIM (hp\<lparr>BATCH := B\<rparr>) = EMBD_DIM hp"
    by simp_all
  show ?thesis
    unfolding step_def Let_def
    apply (simp only: sel column_append R property_R_i_append r_i_prime_append gs ge)
    apply (subst p_i_r_append)
     apply (simp add: lge assms)
    apply (simp only: p_i_s_append)
    apply (rule blend_append)
     apply (simp add: r_i_prime_def lR length_p_i_r lge assms)
    apply (simp add: length_p_i_r length_p_i_s lge lgs assms)
    done
qed


lemma model_simulation_append:
  assumes "length S1 = B1" "length E1 = B1" "length r1 = B1"
  shows "model_simulation (hp\<lparr>BATCH := B1 + B2\<rparr>) L n w D (S1 @ S2) (E1 @ E2) (r1 @ r2) =
         model_simulation (hp\<lparr>BATCH := B1\<rparr>) L n w D S1 E1 r1 @
         model_simulation (hp\<lparr>BATCH := B2\<rparr>) L n w D S2 E2 r2"
proof -
  have l: "length (p_0 B1 n) = B1" by (simp add: p_0_def)
  show ?thesis
    unfolding model_simulation_def
    by (simp add: p_0_append step_append [OF assms l])
qed

lemma length_model_simulation:
  assumes "length S = BATCH hp" "length E = BATCH hp" "length r = BATCH hp"
  shows "length (model_simulation hp L n w D S E r) = BATCH hp"
  unfolding model_simulation_def using assms by (intro length_step) (simp_all add: p_0_def)

lemma property_R_N_append:
  assumes "length r1 = B1"
  shows "property_R_N (hp\<lparr>BATCH := B1 + B2\<rparr>) D (r1 @ r2) =
         property_R_N (hp\<lparr>BATCH := B1\<rparr>) D r1 @ property_R_N (hp\<lparr>BATCH := B2\<rparr>) D r2"
  using assms by (simp add: property_R_N_def column_append R_i_append length_column)

lemma final_classifier_append:
  assumes "length S1 = B1" "length r1 = B1" "length p1 = B1" "length q1 = B1"
  shows "final_classifier (hp\<lparr>BATCH := B1 + B2\<rparr>) w D (S1 @ S2) (r1 @ r2) (p1 @ p2) (q1 @ q2) =
         final_classifier (hp\<lparr>BATCH := B1\<rparr>) w D S1 r1 p1 q1 @
         final_classifier (hp\<lparr>BATCH := B2\<rparr>) w D S2 r2 p2 q2"
proof -
  have lR: "length (property_R_N (hp\<lparr>BATCH := B1\<rparr>) D r1) = B1"
    using assms by (simp add: length_property_R_N)
  have m: "m_summary (EMBD_DIM hp) (p1 @ p2)
             (property_R_N (hp\<lparr>BATCH := B1\<rparr>) D r1 @ property_R_N (hp\<lparr>BATCH := B2\<rparr>) D r2)
             (S1 @ S2) =
           m_summary (EMBD_DIM hp) p1 (property_R_N (hp\<lparr>BATCH := B1\<rparr>) D r1) S1 @
           m_summary (EMBD_DIM hp) p2 (property_R_N (hp\<lparr>BATCH := B2\<rparr>) D r2) S2"
    using assms lR by (intro m_summary_append) simp_all
  have lm: "length (m_summary (EMBD_DIM hp) p1 (property_R_N (hp\<lparr>BATCH := B1\<rparr>) D r1) S1) = B1"
    using assms lR by (simp add: length_m_summary)
  show ?thesis
    unfolding final_classifier_def Let_def
    using assms lm by (simp add: property_R_N_append m pre_logits_append)
qed

lemma forward_append:
  assumes "length S1 = B1" "length E1 = B1" "length Q1 = B1"
  shows "forward (hp\<lparr>BATCH := B1 + B2\<rparr>) L n w gen D C (S1 @ S2) (E1 @ E2) (Q1 @ Q2) =
         forward (hp\<lparr>BATCH := B1\<rparr>) L n w gen D C S1 E1 Q1 @
         forward (hp\<lparr>BATCH := B2\<rparr>) L n w gen D C S2 E2 Q2"
proof -
  let ?d = "EMBD_DIM hp"
  let ?P1 = "P_i ?d B1 Q1 (W gen) C" and ?P2 = "P_i ?d B2 Q2 (W gen) C"
  let ?V1 = "V ?d B1 ?P1 Q1 C" and ?V2 = "V ?d B2 ?P2 Q2 C"
  let ?h1 = "encoder_hidden ?d (encoder_lstm gen) ?V1"
  let ?h2 = "encoder_hidden ?d (encoder_lstm gen) ?V2"
  let ?q1 = "q_context ?h1" and ?q2 = "q_context ?h2"
  let ?d1 = "decoder_h (N hp) (decoder_lstm gen) ?q1 ?h1"
  let ?d2 = "decoder_h (N hp) (decoder_lstm gen) ?q2 ?h2"
  let ?r1 = "r_instructions ?d ?d1 ?V1" and ?r2 = "r_instructions ?d ?d2 ?V2"
  have lP: "length ?P1 = B1" using assms by (simp add: length_P_i)
  have lV: "length ?V1 = B1" using assms lP by (simp add: length_V)
  have lh: "length ?h1 = B1" using lV by (simp add: length_encoder_hidden)
  have lq: "length ?q1 = B1" using lh by (simp add: length_q_context)
  have ld: "length ?d1 = B1" using lq lh by (simp add: length_decoder_h)
  have lr: "length ?r1 = B1" using ld lV by (simp add: length_r_instructions)
  have P: "P_i ?d (B1 + B2) (Q1 @ Q2) (W gen) C = ?P1 @ ?P2"
    using assms(3) by (rule P_i_append)
  have Vq: "V ?d (B1 + B2) (?P1 @ ?P2) (Q1 @ Q2) C = ?V1 @ ?V2"
    using lP assms(3) by (rule V_append)
  have h: "encoder_hidden ?d (encoder_lstm gen) (?V1 @ ?V2) = ?h1 @ ?h2"
    by (rule encoder_hidden_append)
  have q: "q_context (?h1 @ ?h2) = ?q1 @ ?q2" by (rule q_context_append)
  have dh: "decoder_h (N hp) (decoder_lstm gen) (?q1 @ ?q2) (?h1 @ ?h2) = ?d1 @ ?d2"
    using lq lh by (intro decoder_h_append) simp
  have r: "r_instructions ?d (?d1 @ ?d2) (?V1 @ ?V2) = ?r1 @ ?r2"
    using ld lV by (intro r_instructions_append) simp
  have sim: "model_simulation (hp\<lparr>BATCH := B1 + B2\<rparr>) L n w D (S1 @ S2) (E1 @ E2) (?r1 @ ?r2) =
             model_simulation (hp\<lparr>BATCH := B1\<rparr>) L n w D S1 E1 ?r1 @
             model_simulation (hp\<lparr>BATCH := B2\<rparr>) L n w D S2 E2 ?r2"
    using assms(1,2) lr by (rule model_simulation_append)
  have lsim: "length (model_simulation (hp\<lparr>BATCH := B1\<rparr>) L n w D S1 E1 ?r1) = B1"
    using length_model_simulation [of S1 "hp\<lparr>BATCH := B1\<rparr>" E1 ?r1] assms lr by simp
  have fc: "final_classifier (hp\<lparr>BATCH := B1 + B2\<rparr>) w D (S1 @ S2) (?r1 @ ?r2)
              (model_simulation (hp\<lparr>BATCH := B1\<rparr>) L n w D S1 E1 ?r1 @
               model_simulation (hp\<lparr>BATCH := B2\<rparr>) L n w D S2 E2 ?r2) (?q1 @ ?q2) =
            final_classifier (hp\<lparr>BATCH := B1\<rparr>) w D S1 ?r1
              (model_simulation (hp\<lparr>BATCH := B1\<rparr>) L n w D S1 E1 ?r1) ?q1 @
            final_classifier (hp\<lparr>BATCH := B2\<rparr>) w D S2 ?r2
              (model_simulation (hp\<lparr>BATCH := B2\<rparr>) L n w D S2 E2 ?r2) ?q2"
    using assms(1) lr lsim lq by (rule final_classifier_append)
  have sel: "\<And>B. BATCH (hp\<lparr>BATCH := B\<rparr>) = B" "\<And>B. EMBD_DIM (hp\<lparr>BATCH := B\<rparr>) = EMBD_DIM hp"
    "\<And>B. N (hp\<lparr>BATCH := B\<rparr>) = N hp"
    by simp_all
  show ?thesis
    unfolding forward_def Let_def sel P Vq h q dh r sim fc ..
qed


lemma length_forward:
  assumes "length S = BATCH hp" "length E = BATCH hp" "length Q = BATCH hp"
  shows "length (forward hp L n w gen D C S E Q) = BATCH hp"
proof -
  let ?d = "EMBD_DIM hp"
  let ?P = "P_i ?d (BATCH hp) Q (W gen) C"
  let ?V = "V ?d (BATCH hp) ?P Q C"
  let ?h = "encoder_hidden ?d (encoder_lstm gen) ?V"
  let ?q = "q_context ?h"
  let ?dh = "decoder_h (N hp) (decoder_lstm gen) ?q ?h"
  let ?r = "r_instructions ?d ?dh ?V"
  have lP: "length ?P = BATCH hp" using assms by (simp add: length_P_i)
  have lV: "length ?V = BATCH hp" using assms lP by (simp add: length_V)
  have lh: "length ?h = BATCH hp" using lV by (simp add: length_encoder_hidden)
  have lq: "length ?q = BATCH hp" using lh by (simp add: length_q_context)
  have ld: "length ?dh = BATCH hp" using lq lh by (simp add: length_decoder_h)
  have lr: "length ?r = BATCH hp" using ld lV by (simp add: length_r_instructions)
  have ls: "length (model_simulation hp L n w D S E ?r) = BATCH hp"
    using assms(1,2) lr by (rule length_model_simulation)
  show ?thesis
    unfolding forward_def Let_def final_classifier_def
    using assms lr ls lq by (simp add: length_pre_logits length_m_summary length_property_R_N)
qed

lemma forward_nth_alone:
  assumes "length S = B" "length E = B" "length Q = B" "b < B"
  shows "forward (hp\<lparr>BATCH := B\<rparr>) L n w gen D C S E Q ! b =
         forward (hp\<lparr>BATCH := 1\<rparr>) L n w gen D C [S ! b] [E ! b] [Q ! b] ! 0"
proof -
  let ?k = "B - Suc b"
  have B: "B = b + (1 + ?k)" using assms(4) by simp
  have S: "S = take b S @ ([S ! b] @ drop (Suc b) S)"
    using assms by (simp add: Cons_nth_drop_Suc)
  have E: "E = take b E @ ([E ! b] @ drop (Suc b) E)"
    using assms by (simp add: Cons_nth_drop_Suc)
  have Q: "Q = take b Q @ ([Q ! b] @ drop (Suc b) Q)"
    using assms by (simp add: Cons_nth_drop_Suc)
  let ?A = "forward (hp\<lparr>BATCH := b\<rparr>) L n w gen D C (take b S) (take b E) (take b Q)"
  let ?M = "forward (hp\<lparr>BATCH := 1\<rparr>) L n w gen D C [S ! b] [E ! b] [Q ! b]"
  let ?Z = "forward (hp\<lparr>BATCH := ?k\<rparr>) L n w gen D C (drop (Suc b) S) (drop (Suc b) E) (drop (Suc b) Q)"
  have lt: "length (take b S) = b" "length (take b E) = b" "length (take b Q) = b"
    using assms by simp_all
  have 1: "forward (hp\<lparr>BATCH := b + (1 + ?k)\<rparr>) L n w gen D C
             (take b S @ ([S ! b] @ drop (Suc b) S)) (take b E @ ([E ! b] @ drop (Suc b) E))
             (take b Q @ ([Q ! b] @ drop (Suc b) Q)) =
           ?A @ forward (hp\<lparr>BATCH := 1 + ?k\<rparr>) L n w gen D C
             ([S ! b] @ drop (Suc b) S) ([E ! b] @ drop (Suc b) E) ([Q ! b] @ drop (Suc b) Q)"
    using lt by (rule forward_append)
  have 2: "forward (hp\<lparr>BATCH := 1 + ?k\<rparr>) L n w gen D C
             ([S ! b] @ drop (Suc b) S) ([E ! b] @ drop (Suc b) E) ([Q ! b] @ drop (Suc b) Q) =
           ?M @ ?Z"
    by (rule forward_append) simp_all
  have lA: "length ?A = b"
    using length_forward [of "take b S" "hp\<lparr>BATCH := b\<rparr>" "take b E" "take b Q"] lt by simp
  have lM: "length ?M = 1"
    using length_forward [of "[S ! b]" "hp\<lparr>BATCH := 1\<rparr>" "[E ! b]" "[Q ! b]"] by simp
  have "forward (hp\<lparr>BATCH := B\<rparr>) L n w gen D C S E Q = ?A @ (?M @ ?Z)"
    using 1 2 B S E Q by metis
  then show ?thesis using lA lM by (simp add: nth_append)
qed

text \<open>
  Claim C6. The logits of two batches concatenated along the batch axis, computed in one
  run, are the logits of the first batch followed by the logits of the second, each
  computed in a run of its own. The logits of a batch element are those a run on that
  element alone returns: no other element of the batch enters them.
\<close>

theorem batch_independence:
  assumes "length S1 = B1" "length E1 = B1" "length Q1 = B1"
    and "length S2 = B2" "length E2 = B2" "length Q2 = B2"
  shows "forward (hp\<lparr>BATCH := B1 + B2\<rparr>) L n w gen D C (S1 @ S2) (E1 @ E2) (Q1 @ Q2) =
           forward (hp\<lparr>BATCH := B1\<rparr>) L n w gen D C S1 E1 Q1 @
           forward (hp\<lparr>BATCH := B2\<rparr>) L n w gen D C S2 E2 Q2 \<and>
         length (forward (hp\<lparr>BATCH := B1\<rparr>) L n w gen D C S1 E1 Q1) = B1 \<and>
         (\<forall>b<B1. forward (hp\<lparr>BATCH := B1\<rparr>) L n w gen D C S1 E1 Q1 ! b =
                   forward (hp\<lparr>BATCH := 1\<rparr>) L n w gen D C [S1 ! b] [E1 ! b] [Q1 ! b] ! 0)"
proof (intro conjI allI impI)
  show "forward (hp\<lparr>BATCH := B1 + B2\<rparr>) L n w gen D C (S1 @ S2) (E1 @ E2) (Q1 @ Q2) =
           forward (hp\<lparr>BATCH := B1\<rparr>) L n w gen D C S1 E1 Q1 @
           forward (hp\<lparr>BATCH := B2\<rparr>) L n w gen D C S2 E2 Q2"
    using assms(1-3) by (rule forward_append)
  show "length (forward (hp\<lparr>BATCH := B1\<rparr>) L n w gen D C S1 E1 Q1) = B1"
    using length_forward [of S1 "hp\<lparr>BATCH := B1\<rparr>" E1 Q1] assms(1-3) by simp
  show "forward (hp\<lparr>BATCH := B1\<rparr>) L n w gen D C S1 E1 Q1 ! b =
        forward (hp\<lparr>BATCH := 1\<rparr>) L n w gen D C [S1 ! b] [E1 ! b] [Q1 ! b] ! 0" if "b < B1" for b
    using assms(1-3) that by (rule forward_nth_alone)
qed

theorem batch_independence_witness:
  "length example_S = 32 \<and> length example_E = 32 \<and> length example_embd_questions = 32 \<and>
   forward (default_hyperparams\<lparr>BATCH := 32 + 32\<rparr>) 2 3 example_weights example_generator
       example_D example_C (example_S @ example_S) (example_E @ example_E)
       (example_embd_questions @ example_embd_questions) =
     forward (default_hyperparams\<lparr>BATCH := 32\<rparr>) 2 3 example_weights example_generator
       example_D example_C example_S example_E example_embd_questions @
     forward (default_hyperparams\<lparr>BATCH := 32\<rparr>) 2 3 example_weights example_generator
       example_D example_C example_S example_E example_embd_questions \<and>
   forward (default_hyperparams\<lparr>BATCH := 32\<rparr>) 2 3 example_weights example_generator
       example_D example_C example_S example_E example_embd_questions ! 5 =
     forward (default_hyperparams\<lparr>BATCH := 1\<rparr>) 2 3 example_weights example_generator
       example_D example_C [example_S ! 5] [example_E ! 5] [example_embd_questions ! 5] ! 0"
proof -
  have l: "length example_S = 32" "length example_E = 32" "length example_embd_questions = 32"
    by (simp_all add: example_S_def example_E_def example_embd_questions_def)
  have b: "(5::nat) < 32" by simp
  note t = batch_independence [OF l l, where hp = default_hyperparams and L = 2 and n = 3
      and w = example_weights and gen = example_generator and D = example_D and C = example_C]
  from t b have "forward (default_hyperparams\<lparr>BATCH := 32\<rparr>) 2 3 example_weights example_generator
       example_D example_C example_S example_E example_embd_questions ! 5 =
     forward (default_hyperparams\<lparr>BATCH := 1\<rparr>) 2 3 example_weights example_generator
       example_D example_C [example_S ! 5] [example_E ! 5] [example_embd_questions ! 5] ! 0"
    by blast
  with t [THEN conjunct1] l show ?thesis by blast
qed

lemma torch_rand_shape: "torch_rand k g = (v, g') \<Longrightarrow> length v = k"
  by (auto simp: torch_rand_def)









lemma length_assign_edge [simp]: "length (assign_edge i j v T) = length T"
  by (simp add: assign_edge_def)

lemma assign_edge_length1: "b < length T \<Longrightarrow> length (assign_edge i j v T ! b) = length (T ! b)"
  by (simp add: assign_edge_def)

lemma assign_edge_length2:
  "length (assign_edge i j v T ! b ! i') = length (T ! b ! i')" if "b < length T"
proof (cases "i < length (T ! b)")
  case True
  then show ?thesis using that by (cases "i' = i") (simp_all add: assign_edge_def)
next
  case False
  then have "(T ! b)[i := (T ! b ! i)[j := v]] = T ! b" by (simp add: list_update_beyond)
  then show ?thesis using that by (simp add: assign_edge_def)
qed

lemma assign_edge_nth:
  assumes "b < length T" "i < length (T ! b)" "j < length (T ! b ! i)"
  shows "assign_edge i j v T ! b ! i' ! j' = (if i' = i \<and> j' = j then v else T ! b ! i' ! j')"
  using assms by (auto simp: assign_edge_def nth_list_update)

lemma permutations2_set: "set (permutations2 n) = {(i, j). i < n \<and> j < n \<and> i \<noteq> j}"
  by (auto simp: permutations2_def)

lemma edges_built_init:
  "edges_built B d nodes relations []
     (replicate B (replicate (length nodes) (replicate (length nodes) 0)),
      replicate B (replicate (length nodes) (replicate (length nodes) (replicate d 0))), g)"
  by (simp add: edges_built_def)

lemma edges_built_step:
  assumes inv: "edges_built B d nodes relations ps st"
    and ij: "i < length nodes" "j < length nodes"
  shows "edges_built B d nodes relations (ps @ [(i, j)]) (edge_step d nodes relations (i, j) st)"
proof -
  obtain mask E g where st: "st = (mask, E, g)" by (cases st)
  let ?n = "length nodes"
  from inv have l: "length mask = B" "length E = B"
    and lb: "\<And>b. b < B \<Longrightarrow> length (mask ! b) = ?n \<and> length (E ! b) = ?n"
    and li: "\<And>b i. b < B \<Longrightarrow> i < ?n \<Longrightarrow> length (mask ! b ! i) = ?n \<and> length (E ! b ! i) = ?n"
    and lj: "\<And>b i j. b < B \<Longrightarrow> i < ?n \<Longrightarrow> j < ?n \<Longrightarrow> length (E ! b ! i ! j) = d"
    and ent: "\<And>b i j. b < B \<Longrightarrow> i < ?n \<Longrightarrow> j < ?n \<Longrightarrow>
          (if (i, j) \<in> set ps \<and> relations (nodes ! i, nodes ! j) \<noteq> None
           then mask ! b ! i ! j = 1
           else mask ! b ! i ! j = 0 \<and> E ! b ! i ! j = replicate d 0)"
    unfolding edges_built_def st by simp_all
  show ?thesis
  proof (cases "relations (nodes ! i, nodes ! j) = None")
    case True
    then have e: "edge_step d nodes relations (i, j) (mask, E, g) = (mask, E, g)"
      by (simp add: edge_step_def)
    have "(if (i', j') \<in> set (ps @ [(i, j)]) \<and> relations (nodes ! i', nodes ! j') \<noteq> None
           then mask ! b ! i' ! j' = 1
           else mask ! b ! i' ! j' = 0 \<and> E ! b ! i' ! j' = replicate d 0)"
      if "b < B" "i' < ?n" "j' < ?n" for b i' j'
      using ent [OF that] True by auto
    then show ?thesis unfolding st e edges_built_def using l lb li lj by simp
  next
    case False
    let ?v = "map g [0..<d]"
    let ?mask = "assign_edge i j 1 mask" and ?E = "assign_edge i j ?v E"
    from False have e: "edge_step d nodes relations (i, j) (mask, E, g) = (?mask, ?E, \<lambda>k. g (k + d))"
      by (simp add: edge_step_def torch_rand_def)
    have m: "?mask ! b ! i' ! j' = (if i' = i \<and> j' = j then 1 else mask ! b ! i' ! j')"
      if "b < B" for b i' j'
      using that l lb [OF that] li [OF that ij(1)] ij by (intro assign_edge_nth) simp_all
    have E: "?E ! b ! i' ! j' = (if i' = i \<and> j' = j then ?v else E ! b ! i' ! j')"
      if "b < B" for b i' j'
      using that l lb [OF that] li [OF that ij(1)] ij by (intro assign_edge_nth) simp_all
    have 1: "length (?mask ! b) = ?n \<and> length (?E ! b) = ?n" if "b < B" for b
      using that l lb [OF that] by (simp add: assign_edge_length1)
    have 2: "length (?mask ! b ! i') = ?n \<and> length (?E ! b ! i') = ?n" if "b < B" "i' < ?n" for b i'
      using that l li [OF that] by (simp add: assign_edge_length2)
    have 3: "length (?E ! b ! i' ! j') = d" if "b < B" "i' < ?n" "j' < ?n" for b i' j'
      using that lj [OF that] by (simp add: E)
    have 4: "(if (i', j') \<in> set (ps @ [(i, j)]) \<and> relations (nodes ! i', nodes ! j') \<noteq> None
           then ?mask ! b ! i' ! j' = 1
           else ?mask ! b ! i' ! j' = 0 \<and> ?E ! b ! i' ! j' = replicate d 0)"
      if "b < B" "i' < ?n" "j' < ?n" for b i' j'
      using ent [OF that] False that(1) by (auto simp: m E)
    show ?thesis unfolding st e edges_built_def using l 1 2 3 4 by simp
  qed
qed

lemma edges_built_fold:
  assumes "\<forall>(i, j)\<in>set ps. i < length nodes \<and> j < length nodes"
  shows "edges_built B d nodes relations ps
           (fold (edge_step d nodes relations) ps
              (replicate B (replicate (length nodes) (replicate (length nodes) 0)),
               replicate B (replicate (length nodes) (replicate (length nodes) (replicate d 0))), g))"
  using assms
proof (induction ps rule: rev_induct)
  case Nil
  show ?case by (simp add: edges_built_init)
next
  case (snoc x ps)
  obtain i j where x: "x = (i, j)" by (cases x)
  from snoc.prems have ij: "i < length nodes" "j < length nodes" and
    rest: "\<forall>(i, j)\<in>set ps. i < length nodes \<and> j < length nodes"
    by (auto simp: x)
  show ?case unfolding x fold_append comp_def fold_simps
    by (rule edges_built_step [OF snoc.IH [OF rest] ij])
qed

lemma scene_graph_edges_built:
  "edges_built B d nodes relations (permutations2 (length nodes))
     (scene_graph_edges B d nodes relations g)"
  unfolding scene_graph_edges_def
  by (rule edges_built_fold) (simp add: permutations2_set)


lemma elu_0 [simp]: "elu 0 = 0"
  by (simp add: elu_def)

lemma dot_zero_left: "dot (replicate k 0) v = 0"
proof (induction v arbitrary: k)
  case Nil
  show ?case by (simp add: dot_def)
next
  case (Cons a v)
  show ?case
  proof (cases k)
    case 0
    then show ?thesis by (simp add: dot_def)
  next
    case (Suc k')
    with Cons.IH [of k'] show ?thesis by (simp add: dot_def)
  qed
qed

lemma vm_zero: "vm d (replicate k 0) M = replicate d 0"
  by (simp add: vm_def dot_zero_left map_replicate_const)

lemma vmul_zero_left: "length v = d \<Longrightarrow> vmul (replicate d 0) v = replicate d 0"
  by (intro nth_equalityI) (simp_all add: vmul_def)

lemma gamma_i_e_nth:
  assumes "b < length E" "b < B" "b < length r_i"
  shows "gamma_i_e d B E WL r_i ! b = map (map (\<lambda>e. map elu (vmul (vm d e WL) (r_i ! b)))) (E ! b)"
  using assms by (simp add: gamma_i_e_def)

lemma gamma_i_e_entry:
  assumes "b < length E" "b < B" "b < length r_i" "y < length (E ! b)" "x < length (E ! b ! y)"
  shows "gamma_i_e d B E WL r_i ! b ! y ! x = map elu (vmul (vm d (E ! b ! y ! x) WL) (r_i ! b))"
  using assms by (simp add: gamma_i_e_nth)

lemma gamma_i_e_zero:
  assumes "b < length E" "b < B" "b < length r_i" "y < length (E ! b)" "x < length (E ! b ! y)"
    and "E ! b ! y ! x = replicate d 0" "length (r_i ! b) = d"
  shows "gamma_i_e d B E WL r_i ! b ! y ! x = replicate d 0"
  using assms by (simp add: gamma_i_e_entry vm_zero vmul_zero_left)

lemma map2_index:
  assumes "length xs = n" "length ys = n"
  shows "map2 f xs ys = map (\<lambda>i. f (xs ! i) (ys ! i)) [0..<n]"
  using assms by (intro nth_equalityI) simp_all

lemma p_i_r_nth:
  assumes "b < length g_e" "b < length p"
  shows "p_i_r d n Wr g_e p ! b =
         softmax (map (\<lambda>v. dot v Wr)
           (msum n d (map2 (\<lambda>g_y p_y. map (map (\<lambda>x. x * p_y)) g_y) (g_e ! b) (p ! b))))"
  using assms by (simp add: p_i_r_def)

lemma masked_p_i_r_nth:
  assumes "b < length am" "b < length g_e" "b < length p"
  shows "masked_p_i_r d n Wr am g_e p ! b =
         softmax (map (\<lambda>x. dot (vsum d (map (\<lambda>y. smul (p ! b ! y) (g_e ! b ! y ! x))
                                         (filter (\<lambda>y. am ! b ! y ! x = 1) [0..<n]))) Wr)
                    [0..<n])"
  using assms by (simp add: masked_p_i_r_def)

lemma weighted_column:
  assumes "length g_b = n" "length p_b = n" "\<forall>y<n. length (g_b ! y) = n" "x < n"
  shows "column x (map2 (\<lambda>g_y p_y. map (map (\<lambda>z. z * p_y)) g_y) g_b p_b) =
         map (\<lambda>y. smul (p_b ! y) (g_b ! y ! x)) [0..<n]"
proof -
  have "column x (map2 (\<lambda>g_y p_y. map (map (\<lambda>z. z * p_y)) g_y) g_b p_b) =
        map (\<lambda>y. map (map (\<lambda>z. z * p_b ! y)) (g_b ! y) ! x) [0..<n]"
    unfolding map2_index [OF assms(1,2)] by (simp add: column_def)
  also have "\<dots> = map (\<lambda>y. smul (p_b ! y) (g_b ! y ! x)) [0..<n]"
  proof (rule map_cong [OF refl])
    fix y assume "y \<in> set [0..<n]"
    then have "x < length (g_b ! y)" using assms(3,4) by simp
    then show "map (map (\<lambda>z. z * p_b ! y)) (g_b ! y) ! x = smul (p_b ! y) (g_b ! y ! x)"
      by (simp add: smul_def mult.commute)
  qed
  finally show ?thesis .
qed

lemma vsum_filter_zero:
  assumes "\<forall>y\<in>set ys. \<not> P y \<longrightarrow> F y = replicate d 0"
  shows "vsum d (map F (filter P ys)) = vsum d (map F ys)"
proof -
  have "sum_list (column k (map F (filter P ys))) = sum_list (column k (map F ys))" if "k < d" for k
  proof -
    have "sum_list (map (\<lambda>y. F y ! k) (filter P ys)) = sum_list (map (\<lambda>y. F y ! k) ys)"
      using assms that by (intro sum_list_map_filter) simp
    then show ?thesis by (simp add: column_def comp_def)
  qed
  then show ?thesis by (simp add: vsum_def)
qed

lemma p_i_r_eq_masked:
  assumes "length am = B" "length g_e = B" "length p = B"
    and "\<forall>b<B. length (g_e ! b) = n \<and> length (p ! b) = n \<and>
           (\<forall>y<n. length (g_e ! b ! y) = n \<and>
              (\<forall>x<n. am ! b ! y ! x \<noteq> 1 \<longrightarrow> g_e ! b ! y ! x = replicate d 0))"
  shows "p_i_r d n Wr g_e p = masked_p_i_r d n Wr am g_e p"
proof (rule nth_equalityI)
  show "length (p_i_r d n Wr g_e p) = length (masked_p_i_r d n Wr am g_e p)"
    using assms(1-3) by (simp add: p_i_r_def masked_p_i_r_def)
  fix b assume "b < length (p_i_r d n Wr g_e p)"
  then have b: "b < B" using assms(2,3) by (simp add: p_i_r_def)
  let ?ms = "map2 (\<lambda>g_y p_y. map (map (\<lambda>x. x * p_y)) g_y) (g_e ! b) (p ! b)"
  from assms(4) b have lg: "length (g_e ! b) = n" and lp: "length (p ! b) = n"
    and rows: "\<forall>y<n. length (g_e ! b ! y) = n"
    and zero: "\<And>y x. y < n \<Longrightarrow> x < n \<Longrightarrow> am ! b ! y ! x \<noteq> 1 \<Longrightarrow> g_e ! b ! y ! x = replicate d 0"
    by auto
  have "vsum d (column x ?ms) =
        vsum d (map (\<lambda>y. smul (p ! b ! y) (g_e ! b ! y ! x)) (filter (\<lambda>y. am ! b ! y ! x = 1) [0..<n]))"
    if x: "x < n" for x
  proof -
    have "\<forall>y\<in>set [0..<n]. \<not> am ! b ! y ! x = 1 \<longrightarrow>
            smul (p ! b ! y) (g_e ! b ! y ! x) = replicate d 0"
      using zero x by (simp add: smul_def)
    then have "vsum d (map (\<lambda>y. smul (p ! b ! y) (g_e ! b ! y ! x)) (filter (\<lambda>y. am ! b ! y ! x = 1) [0..<n])) =
          vsum d (map (\<lambda>y. smul (p ! b ! y) (g_e ! b ! y ! x)) [0..<n])"
      by (rule vsum_filter_zero)
    then show ?thesis unfolding weighted_column [OF lg lp rows x] by simp
  qed
  then have "map (\<lambda>v. dot v Wr) (msum n d ?ms) =
        map (\<lambda>x. dot (vsum d (map (\<lambda>y. smul (p ! b ! y) (g_e ! b ! y ! x))
                                         (filter (\<lambda>y. am ! b ! y ! x = 1) [0..<n]))) Wr) [0..<n]"
    by (simp add: msum_def)
  then show "p_i_r d n Wr g_e p ! b = masked_p_i_r d n Wr am g_e p ! b"
    using b assms(1-3) by (simp add: p_i_r_nth masked_p_i_r_nth)
qed


lemma permutations2_3: "permutations2 3 = [(0, 1), (0, 2), (1, 0), (1, 2), (2, 0), (2, 1)]"
  by (simp add: permutations2_def upt_rec)

lemma example_scene_graph_edges:
  "scene_graph_edges 32 7 example_nodes example_relations example_rng =
     (example_adjacency_mask, example_E, example_rng)"
proof -
  have n: "length example_nodes = 3" by (simp add: example_nodes_def)
  have r3: "replicate 3 x = [x, x, x]" for x :: 'a by (simp add: numeral_3_eq_3)
  show ?thesis
    unfolding scene_graph_edges_def n permutations2_3
    by (simp add: example_nodes_def edge_step_def example_relations_def
      torch_rand_def assign_edge_def example_rng_def example_adjacency_mask_def example_E_def half_def
      map_replicate_const r3 numeral_2_eq_2)
qed

text \<open>
  Claim C9. In the tensors the scene-graph cells build, every ordered pair of nodes
  without a relation, every pair \<open>(s, s)\<close> among them, has the zero vector in \<open>E\<close> and the
  flag 0; the edge relevance at such a pair is the zero vector, so is its product with
  the probability of the source; the relational update the notebook computes, which
  sums over all pairs, is the relational update that sums over the pairs of flag 1 only.
\<close>

theorem absent_edges_contribute_zero:
  assumes sg: "scene_graph_edges B d nodes relations g = (adjacency_mask, E, g')"
    and r: "is_mat B d r_i" and p: "is_mat B (length nodes) p"
    and idx: "b < B" "y < length nodes" "x < length nodes"
    and absent: "y = x \<or> relations (nodes ! y, nodes ! x) = None"
  shows "E ! b ! y ! x = replicate d 0 \<and> adjacency_mask ! b ! y ! x = 0 \<and>
         gamma_i_e d B E WL r_i ! b ! y ! x = replicate d 0 \<and>
         map (\<lambda>z. z * p ! b ! y) (gamma_i_e d B E WL r_i ! b ! y ! x) = replicate d 0 \<and>
         p_i_r d (length nodes) Wr (gamma_i_e d B E WL r_i) p =
           masked_p_i_r d (length nodes) Wr adjacency_mask (gamma_i_e d B E WL r_i) p"
proof -
  let ?n = "length nodes"
  let ?g = "gamma_i_e d B E WL r_i"
  have "edges_built B d nodes relations (permutations2 ?n) (adjacency_mask, E, g')"
    using scene_graph_edges_built [of B d nodes relations g] unfolding sg .
  then have l: "length adjacency_mask = B" "length E = B"
    and lb: "\<And>b. b < B \<Longrightarrow> length (E ! b) = ?n"
    and li: "\<And>b i. b < B \<Longrightarrow> i < ?n \<Longrightarrow> length (E ! b ! i) = ?n"
    and ent: "\<And>b i j. b < B \<Longrightarrow> i < ?n \<Longrightarrow> j < ?n \<Longrightarrow>
          (if (i, j) \<in> set (permutations2 ?n) \<and> relations (nodes ! i, nodes ! j) \<noteq> None
           then adjacency_mask ! b ! i ! j = 1
           else adjacency_mask ! b ! i ! j = 0 \<and> E ! b ! i ! j = replicate d 0)"
    unfolding edges_built_def by simp_all
  from r have lr: "length r_i = B" and lrb: "\<And>b. b < B \<Longrightarrow> length (r_i ! b) = d"
    by (auto simp: is_mat_def)
  from p have lp: "length p = B" and lpb: "\<And>b. b < B \<Longrightarrow> length (p ! b) = ?n"
    by (auto simp: is_mat_def)
  from absent have "\<not> ((y, x) \<in> set (permutations2 ?n) \<and> relations (nodes ! y, nodes ! x) \<noteq> None)"
    by (auto simp: permutations2_set)
  with ent [OF idx] have E0: "E ! b ! y ! x = replicate d 0" and m0: "adjacency_mask ! b ! y ! x = 0"
    by simp_all
  have gz: "?g ! b ! y ! x = replicate d 0"
    if "b < B" "y < ?n" "x < ?n" "E ! b ! y ! x = replicate d 0" for b y x
    using that l lr lb [OF that(1)] li [OF that(1,2)] lrb [OF that(1)]
    by (intro gamma_i_e_zero) simp_all
  have g0: "?g ! b ! y ! x = replicate d 0" using idx E0 by (rule gz)
  have c0: "map (\<lambda>z. z * p ! b ! y) (?g ! b ! y ! x) = replicate d 0"
    unfolding g0 by (simp add: map_replicate)
  have lg: "length ?g = B" using l lr by (simp add: length_gamma_i_e)
  have shape: "length (?g ! b) = ?n \<and> length (p ! b) = ?n \<and>
           (\<forall>y<?n. length (?g ! b ! y) = ?n \<and>
              (\<forall>x<?n. adjacency_mask ! b ! y ! x \<noteq> 1 \<longrightarrow> ?g ! b ! y ! x = replicate d 0))"
    if b: "b < B" for b
  proof -
    have gb: "?g ! b = map (map (\<lambda>e. map elu (vmul (vm d e WL) (r_i ! b)))) (E ! b)"
      using b l lr by (intro gamma_i_e_nth) simp_all
    have 1: "length (?g ! b) = ?n" unfolding gb using lb [OF b] by simp
    have 2: "length (?g ! b ! y) = ?n" if "y < ?n" for y
      unfolding gb using lb [OF b] li [OF b that] that by simp
    have 3: "?g ! b ! y ! x = replicate d 0"
      if "y < ?n" "x < ?n" "adjacency_mask ! b ! y ! x \<noteq> 1" for y x
    proof -
      from ent [OF b that(1,2)] that(3) have "E ! b ! y ! x = replicate d 0"
        by (simp split: if_splits)
      with b that(1,2) show ?thesis by (rule gz)
    qed
    from 1 2 3 lpb [OF b] show ?thesis by simp
  qed
  have eq: "p_i_r d ?n Wr ?g p = masked_p_i_r d ?n Wr adjacency_mask ?g p"
    using l(1) lg lp by (rule p_i_r_eq_masked) (use shape in blast)
  from E0 m0 g0 c0 eq show ?thesis by (intro conjI)
qed


theorem absent_edges_contribute_zero_witness:
  "scene_graph_edges 32 7 example_nodes example_relations example_rng =
     (example_adjacency_mask, example_E, example_rng) \<and>
   is_mat 32 7 (column 0 example_r) \<and> is_mat 32 3 (p_0 32 3) \<and>
   example_relations (example_nodes ! 0, example_nodes ! 1) = None \<and>
   example_E ! 0 ! 0 ! 1 = replicate 7 0 \<and> example_adjacency_mask ! 0 ! 0 ! 1 = 0 \<and>
   gamma_i_e 7 32 example_E (eye 7) (column 0 example_r) ! 0 ! 0 ! 1 = replicate 7 0 \<and>
   gamma_i_e 7 32 example_E (eye 7) (column 0 example_r) ! 0 ! 2 ! 2 = replicate 7 0 \<and>
   p_i_r 7 3 (half 7) (gamma_i_e 7 32 example_E (eye 7) (column 0 example_r)) (p_0 32 3) =
     masked_p_i_r 7 3 (half 7) example_adjacency_mask
       (gamma_i_e 7 32 example_E (eye 7) (column 0 example_r)) (p_0 32 3)"
proof -
  have n: "length example_nodes = 3" by (simp add: example_nodes_def)
  have r: "is_mat 32 7 (column 0 example_r)"
    by (simp add: is_mat_def column_def example_r_def half_def)
  have p: "is_mat 32 (length example_nodes) (p_0 32 3)" by (simp add: is_mat_def p_0_def n)
  have none: "example_relations (example_nodes ! 0, example_nodes ! 1) = None"
    by (simp add: example_relations_def example_nodes_def)
  have i: "(0::nat) < 32" "0 < length example_nodes" "1 < length example_nodes"
    "2 < length example_nodes" by (simp_all add: n)
  note a = absent_edges_contribute_zero [OF example_scene_graph_edges r p i(1) i(2) i(3),
      of "eye 7" "half 7", unfolded n] 
  note b = absent_edges_contribute_zero [OF example_scene_graph_edges r p i(1) i(4) i(4),
      of "eye 7" "half 7", unfolded n]
  from a none have
    "example_E ! 0 ! 0 ! 1 = replicate 7 0 \<and> example_adjacency_mask ! 0 ! 0 ! 1 = 0 \<and>
     gamma_i_e 7 32 example_E (eye 7) (column 0 example_r) ! 0 ! 0 ! 1 = replicate 7 0 \<and>
     p_i_r 7 3 (half 7) (gamma_i_e 7 32 example_E (eye 7) (column 0 example_r)) (p_0 32 3) =
       masked_p_i_r 7 3 (half 7) example_adjacency_mask
         (gamma_i_e 7 32 example_E (eye 7) (column 0 example_r)) (p_0 32 3)"
    by blast
  moreover from b have
    "gamma_i_e 7 32 example_E (eye 7) (column 0 example_r) ! 0 ! 2 ! 2 = replicate 7 0"
    by blast
  ultimately show ?thesis using example_scene_graph_edges r p none unfolding n by blast
qed

lemma dot_index:
  assumes "length u = d" "length v = d"
  shows "dot u v = (\<Sum>i<d. u ! i * v ! i)"
proof -
  have "map2 (*) u v = map (\<lambda>i. u ! i * v ! i) [0..<d]"
    using assms by (rule map2_index)
  then show ?thesis
    by (simp add: dot_def interv_sum_list_conv_sum_set_nat atLeast0LessThan)
qed

lemma column_eye:
  assumes "k < d"
  shows "column k (eye d) = map (\<lambda>i. if i = k then 1 else 0) [0..<d]"
  using assms by (simp add: column_def eye_def)

lemma vm_eye:
  assumes "length e = d"
  shows "vm d e (eye d) = e"
proof (rule nth_equalityI)
  show "length (vm d e (eye d)) = length e" using assms by (simp add: vm_def)
  fix k assume "k < length (vm d e (eye d))"
  then have k: "k < d" by (simp add: vm_def)
  have "dot e (column k (eye d)) = (\<Sum>i<d. e ! i * (if i = k then 1 else 0))"
    unfolding column_eye [OF k] using assms by (subst dot_index [of _ d]) simp_all
  also have "\<dots> = (\<Sum>i<d. if i = k then e ! i else 0)"
    by (intro sum.cong) simp_all
  also have "\<dots> = e ! k" using k by (simp add: sum.delta)
  finally show "vm d e (eye d) ! k = e ! k" using k by (simp add: vm_def)
qed

lemma vmul_replicate: "vmul (replicate d a) (replicate d c) = replicate d (a * c)"
  by (intro nth_equalityI) (simp_all add: vmul_def)

lemma smul_replicate: "smul a (replicate d c) = replicate d (a * c)"
  by (simp add: smul_def)

lemma dot_replicate2: "dot (replicate d a) (replicate d c) = real d * (a * c)"
  by (simp add: dot_replicate sum_list_replicate)

lemma vsum_Nil: "vsum d [] = replicate d 0"
  by (simp add: vsum_def column_def map_replicate_const)

lemma vsum_Cons_replicate:
  assumes "vsum d vs = replicate d s"
  shows "vsum d (replicate d c # vs) = replicate d (c + s)"
proof (rule nth_equalityI)
  show "length (vsum d (replicate d c # vs)) = length (replicate d (c + s))"
    by (simp add: vsum_def)
  fix k assume "k < length (vsum d (replicate d c # vs))"
  then have k: "k < d" by (simp add: vsum_def)
  have "vsum d vs ! k = s" unfolding assms using k by simp
  then have "sum_list (column k vs) = s" using k by (simp add: vsum_def)
  then show "vsum d (replicate d c # vs) ! k = replicate d (c + s) ! k"
    using k by (simp add: vsum_def column_def)
qed

lemma vsum_replicate3:
  "vsum d [replicate d a, replicate d b, replicate d c] = replicate d (a + b + c)"
proof -
  have "vsum d [replicate d c] = replicate d (c + 0)"
    by (rule vsum_Cons_replicate) (rule vsum_Nil)
  then have "vsum d [replicate d b, replicate d c] = replicate d (b + (c + 0))"
    by (rule vsum_Cons_replicate)
  then have "vsum d [replicate d a, replicate d b, replicate d c] = replicate d (a + (b + (c + 0)))"
    by (rule vsum_Cons_replicate)
  then show ?thesis by (simp add: add.assoc)
qed

lemma msum_3: "msum 3 d ms = [vsum d (column 0 ms), vsum d (column 1 ms), vsum d (column 2 ms)]"
  by (simp add: msum_def upt_rec numeral_3_eq_3 numeral_2_eq_2)

text \<open>The edge relevance of the scenario: \<open>1/4\<close> in every component where there is a
  relation, the zero vector elsewhere.\<close>

lemma example_gamma_i_e:
  assumes "b < 32"
  shows "gamma_i_e 7 32 example_E (eye 7) (replicate 32 (half 7)) ! b =
     [[replicate 7 0, replicate 7 0, replicate 7 (1 / 4)],
      [replicate 7 (1 / 4), replicate 7 0, replicate 7 (1 / 4)],
      [replicate 7 0, replicate 7 0, replicate 7 0]]"
proof -
  have z: "map elu (vmul (vm 7 (replicate 7 0) (eye 7)) (half 7)) = replicate 7 0"
    by (simp add: vm_zero half_def vmul_replicate)
  have h: "map elu (vmul (vm 7 (half 7) (eye 7)) (half 7)) = replicate 7 (1 / 4)"
    by (simp add: vm_eye half_def vmul_replicate elu_def)
  show ?thesis
    using assms by (simp add: gamma_i_e_nth example_E_def z h)
qed

text \<open>The scores of the relational update on three nodes whose edge relevances are
  constant vectors, for a row \<open>[p0, p1, p2]\<close>.\<close>

lemma scores_3:
  "map (\<lambda>v. dot v (replicate d c))
     (msum 3 d (map2 (\<lambda>g_y p_y. map (map (\<lambda>x. x * p_y)) g_y)
        [[replicate d a00, replicate d a01, replicate d a02],
         [replicate d a10, replicate d a11, replicate d a12],
         [replicate d a20, replicate d a21, replicate d a22]] [p0, p1, p2])) =
   [real d * ((a00 * p0 + a10 * p1 + a20 * p2) * c),
    real d * ((a01 * p0 + a11 * p1 + a21 * p2) * c),
    real d * ((a02 * p0 + a12 * p1 + a22 * p2) * c)]"
  by (simp add: msum_3 column_def vsum_replicate3 dot_replicate2)

lemma example_gamma_i_e_perturbed:
  assumes "b < 32"
  shows "gamma_i_e 7 32 example_E_perturbed (eye 7) (replicate 32 (half 7)) ! b =
     [[replicate 7 0, replicate 7 (1 / 4), replicate 7 (1 / 4)],
      [replicate 7 (1 / 4), replicate 7 0, replicate 7 (1 / 4)],
      [replicate 7 0, replicate 7 0, replicate 7 0]]"
proof -
  have z: "map elu (vmul (vm 7 (replicate 7 0) (eye 7)) (half 7)) = replicate 7 0"
    by (simp add: vm_zero half_def vmul_replicate)
  have h: "map elu (vmul (vm 7 (half 7) (eye 7)) (half 7)) = replicate 7 (1 / 4)"
    by (simp add: vm_eye half_def vmul_replicate elu_def)
  show ?thesis
    using assms
    by (simp add: gamma_i_e_nth example_E_perturbed_def assign_edge_def example_E_def z h)
qed

lemma softmax_3_middle: "softmax [a, b, c] ! 1 = exp b / (exp a + exp b + exp c)"
  by (simp add: softmax_def)

lemma softmax_middle_differs:
  assumes "0 < a"
  shows "softmax [a, 0, c] \<noteq> softmax [a, a, c]"
proof
  assume "softmax [a, 0, c] = softmax [a, a, c]"
  then have "softmax [a, 0, c] ! 1 = softmax [a, a, c] ! 1" by (rule arg_cong)
  then have "exp 0 / (exp a + exp 0 + exp c) = exp a / (exp a + exp a + exp c)"
    unfolding softmax_3_middle .
  then have eq: "1 / (exp a + 1 + exp c) = exp a / (exp a + exp a + exp c)"
    by simp
  have u: "1 < exp a" using assms by simp
  have v: "0 < exp c" by simp
  from u v have pos: "0 < exp a + 1 + exp c" "0 < exp a + exp a + exp c" by linarith+
  from pos have "exp a + 1 + exp c \<noteq> 0" "exp a + exp a + exp c \<noteq> 0" by simp_all
  from eq [unfolded frac_eq_eq [OF this]]
  have "exp a + exp a + exp c = exp a * (exp a + 1 + exp c)" by simp
  moreover have "(x - 1) * (x + y) = x * (x + 1 + y) - (x + x + y)" for x y :: real
    by (simp add: algebra_simps)
  ultimately have "(exp a - 1) * (exp a + exp c) = 0" by (simp only: diff_self)
  moreover have "0 < (exp a - 1) * (exp a + exp c)" using u v by (intro mult_pos_pos) linarith+
  ultimately show False by (simp only: less_irrefl)
qed

lemma column_0_example_r: "column 0 example_r = replicate 32 (half 7)"
  by (simp add: column_def example_r_def)

text \<open>
  On the scenario the pair from \<^verbatim>\<open>kitten\<close> to \<^verbatim>\<open>person\<close> has the flag 0; overwriting its
  stored embedding, and nothing else, changes the relational update of the first step.
\<close>

theorem perturbed_absent_edge_changes_p_i_r:
  "example_adjacency_mask ! 0 ! 0 ! 1 = 0 \<and>
   example_E_perturbed = assign_edge 0 1 (half 7) example_E \<and>
   p_i_r 7 3 (quarter 7) (gamma_i_e 7 32 example_E_perturbed (eye 7) (column 0 example_r)) (p_0 32 3) \<noteq>
   p_i_r 7 3 (quarter 7) (gamma_i_e 7 32 example_E (eye 7) (column 0 example_r)) (p_0 32 3)"
proof -
  let ?g = "gamma_i_e 7 32 example_E (eye 7) (replicate 32 (half 7))"
  let ?g' = "gamma_i_e 7 32 example_E_perturbed (eye 7) (replicate 32 (half 7))"
  have b: "(0::nat) < 32" by simp
  have p0: "p_0 32 3 ! 0 = [1 / 3, 1 / 3, 1 / 3]" by (simp add: p_0_def numeral_3_eq_3)
  have lg: "0 < length ?g" "0 < length ?g'"
    by (simp_all add: length_gamma_i_e example_E_def example_E_perturbed_def)
  have lp: "0 < length (p_0 32 3)" by (simp add: p_0_def)
  have 1: "p_i_r 7 3 (quarter 7) ?g (p_0 32 3) ! 0 = softmax [7 / 48, 0, 7 / 24]"
    unfolding p_i_r_nth [OF lg(1) lp] example_gamma_i_e [OF b] p0 quarter_def scores_3 by simp
  have 2: "p_i_r 7 3 (quarter 7) ?g' (p_0 32 3) ! 0 = softmax [7 / 48, 7 / 48, 7 / 24]"
    unfolding p_i_r_nth [OF lg(2) lp] example_gamma_i_e_perturbed [OF b] p0 quarter_def scores_3
    by simp
  have "p_i_r 7 3 (quarter 7) ?g' (p_0 32 3) \<noteq> p_i_r 7 3 (quarter 7) ?g (p_0 32 3)"
  proof
    assume "p_i_r 7 3 (quarter 7) ?g' (p_0 32 3) = p_i_r 7 3 (quarter 7) ?g (p_0 32 3)"
    then have "softmax [7 / 48, 0, 7 / 24] = softmax [7 / 48, 7 / 48, 7 / 24 :: real]"
      using 1 2 by simp
    then show False using softmax_middle_differs [of "7 / 48" "7 / 24"] by simp
  qed
  moreover have "example_adjacency_mask ! 0 ! 0 ! 1 = 0" by (simp add: example_adjacency_mask_def)
  ultimately show ?thesis by (simp add: column_0_example_r example_E_perturbed_def)
qed


lemma is_mat_nth: "is_mat a c t \<Longrightarrow> i < a \<Longrightarrow> length (t ! i) = c"
  by (simp add: is_mat_def)

lemma is_mat_length: "is_mat a c t \<Longrightarrow> length t = a"
  by (simp add: is_mat_def)

lemma is_tensor3_nth: "is_tensor3 a b c t \<Longrightarrow> i < a \<Longrightarrow> is_mat b c (t ! i)"
  by (simp add: is_tensor3_def)

lemma is_tensor4_nth: "is_tensor4 a b c d t \<Longrightarrow> i < a \<Longrightarrow> is_tensor3 b c d (t ! i)"
  by (simp add: is_tensor4_def)

lemma length_gamma_entry: "length (map elu (vmul (vm d e WL) r_b)) = min d (length r_b)"
  by (simp add: vmul_def vm_def)

lemma sum_list_index: "sum_list xs = (\<Sum>i<length xs. xs ! i)" for xs :: "real list"
  by (simp add: sum_list_sum_nth atLeast0LessThan)

lemma mv_nth: "j < length M \<Longrightarrow> mv M v ! j = dot (M ! j) v"
  by (simp add: mv_def)

lemma Linear_nth:
  assumes "o' < length M" "o' < length c"
  shows "Linear M c x ! o' = dot (M ! o') x + c ! o'"
  using assms by (simp add: Linear_def vadd_def mv_def)

lemma vm_index:
  assumes "length v = n" "length M = n" "k < d"
  shows "vm d v M ! k = (\<Sum>y<n. v ! y * M ! y ! k)"
proof -
  have "vm d v M ! k = dot v (column k M)" using assms(3) by (simp add: vm_def)
  also have "\<dots> = (\<Sum>y<n. v ! y * column k M ! y)"
    using assms(1,2) by (intro dot_index) (simp_all add: column_def)
  also have "\<dots> = (\<Sum>y<n. v ! y * M ! y ! k)"
    using assms(2) by (intro sum.cong) (simp_all add: column_def)
  finally show ?thesis .
qed

lemma vsum_index:
  assumes "k < d"
  shows "vsum d vs ! k = (\<Sum>j<length vs. vs ! j ! k)"
proof -
  have "vsum d vs ! k = sum_list (column k vs)" using assms by (simp add: vsum_def)
  also have "\<dots> = (\<Sum>j<length vs. column k vs ! j)"
    by (simp add: sum_list_index column_def)
  also have "\<dots> = (\<Sum>j<length vs. vs ! j ! k)"
    by (intro sum.cong) (simp_all add: column_def)
  finally show ?thesis .
qed

lemma softmax_index:
  assumes "j < length xs"
  shows "softmax xs ! j = exp (xs ! j) / (\<Sum>k<length xs. exp (xs ! k))"
proof -
  have "sum_list (map exp xs) = (\<Sum>k<length xs. exp (xs ! k))"
    by (simp add: sum_list_index)
  then show ?thesis using assms by (simp add: softmax_def)
qed


text \<open>
  Claim C7. The logits of the final classifier, in plain sums. For a batch element \<open>b\<close>:
  the relevance of property \<open>j \<le> L\<close> is the softmax over all \<open>L + 2\<close> property types of
  the products of the rows of \<open>D\<close> with the terminal instruction \<open>r_N\<close>, the entry of the
  relations being left out; \<open>m\<close> sums the node states over the properties with these
  weights and over the nodes with the distribution \<open>p\<close>; the input of the network is \<open>m\<close>
  followed by \<open>q\<close>; the hidden layer is affine in this input; ELU is applied to the hidden
  layer and to nothing else; logit \<open>o\<close> is affine in the activations, with no activation
  after it. There are \<open>BATCH\<close> rows of \<open>OUT_DIM\<close> logits. For \<open>N > 0\<close> the simulation does
  not read \<open>r_N\<close>: instructions that agree on the steps \<open>0, \<dots>, N - 1\<close> give the same
  distribution.
\<close>

theorem final_classifier_logits:
  fixes hp :: hyperparams and w :: weights and D :: mat and S E :: tensor4
    and r r' :: tensor3 and p q :: mat and L n b :: nat
  defines "d \<equiv> EMBD_DIM hp"
  defines "score \<equiv> \<lambda>k. (\<Sum>i<d. D ! k ! i * r ! b ! N hp ! i)"
  defines "R_N \<equiv> \<lambda>j. exp (score j) / (\<Sum>k<L + 2. exp (score k))"
  defines "m \<equiv> \<lambda>i. (\<Sum>node<n. p ! b ! node * (\<Sum>j<L + 1. R_N j * S ! b ! node ! j ! i))"
  defines "x \<equiv> \<lambda>i. if i < d then m i else q ! b ! (i - d)"
  defines "hidden \<equiv> \<lambda>k. (\<Sum>i<2 * d. classifier_0_weight w ! k ! i * x i) + classifier_0_bias w ! k"
  defines "activation \<equiv> \<lambda>k. if 0 < hidden k then hidden k else exp (hidden k) - 1"
  assumes v: "valid_input hp L n D S E r" and vw: "valid_weights hp L w"
    and p: "is_mat (BATCH hp) n p" and q: "is_mat (BATCH hp) (EMBD_DIM hp) q" and b: "b < BATCH hp"
  shows "(\<forall>o'<OUT_DIM hp. final_classifier hp w D S r p q ! b ! o' =
            (\<Sum>k<2 * d. classifier_2_weight w ! o' ! k * activation k) + classifier_2_bias w ! o') \<and>
         length (final_classifier hp w D S r p q) = BATCH hp \<and>
         length (final_classifier hp w D S r p q ! b) = OUT_DIM hp \<and>
         (0 < N hp \<and> length r' = length r \<and> (\<forall>c<length r. \<forall>i<N hp. r' ! c ! i = r ! c ! i) \<longrightarrow>
            model_simulation hp L n w D S E r' = model_simulation hp L n w D S E r \<and>
            recurrent_loop hp L n w D S E r' (N hp) = recurrent_loop hp L n w D S E r (N hp))"
proof -
  note u = final_classifier_unfolded [OF v vw p q b, of r']
  let ?rN = "r ! b ! N hp"
  let ?R = "butlast (softmax (mv D ?rN))"
  let ?pool = "\<lambda>s. vsum d (map2 smul ?R s)"
  let ?m = "vm d (p ! b) (map ?pool (S ! b))"
  let ?x = "?m @ q ! b"
  let ?h = "Linear (classifier_0_weight w) (classifier_0_bias w) ?x"
  from v have lD: "length D = L + 2" and Dk: "\<And>k. k < L + 2 \<Longrightarrow> length (D ! k) = d"
    by (auto simp: valid_input_def is_mat_def d_def)
  from v have S4: "is_tensor4 (BATCH hp) n (L + 1) d S" and r3: "is_tensor3 (BATCH hp) (N hp + 1) d r"
    by (simp_all add: valid_input_def d_def)
  have Sb: "is_tensor3 n (L + 1) d (S ! b)" using S4 b by (rule is_tensor4_nth)
  have lSb: "length (S ! b) = n" using Sb by (simp add: is_tensor3_def)
  have Sn: "is_mat (L + 1) d (S ! b ! node)" if "node < n" for node
    using Sb that by (rule is_tensor3_nth)
  have lrN: "length ?rN = d"
    using is_tensor3_nth [OF r3 b] by (simp add: is_mat_def)
  have lpb: "length (p ! b) = n" using p b by (rule is_mat_nth)
  have lqb: "length (q ! b) = d" using q b unfolding d_def by (rule is_mat_nth)
  from vw have W1: "is_mat (2 * d) (2 * d) (classifier_0_weight w)"
    and b1: "length (classifier_0_bias w) = 2 * d"
    and W2: "is_mat (OUT_DIM hp) (2 * d) (classifier_2_weight w)"
    and b2: "length (classifier_2_bias w) = OUT_DIM hp"
    by (simp_all add: valid_weights_def d_def)
  have sc: "mv D ?rN ! k = score k" if "k < L + 2" for k
  proof -
    have "mv D ?rN ! k = dot (D ! k) ?rN" using that lD by (simp add: mv_nth)
    also have "\<dots> = score k" unfolding score_def using Dk [OF that] lrN by (rule dot_index)
    finally show ?thesis .
  qed
  have lmv: "length (mv D ?rN) = L + 2" using lD by (simp add: mv_def)
  have lR: "length ?R = L + 1" using lmv by simp
  have Rj: "?R ! j = R_N j" if "j < L + 1" for j
  proof -
    have "?R ! j = softmax (mv D ?rN) ! j" using that lmv by (simp add: nth_butlast)
    also have "\<dots> = exp (mv D ?rN ! j) / (\<Sum>k<L + 2. exp (mv D ?rN ! k))"
      using that lmv softmax_index [of j "mv D ?rN"] by simp
    also have "\<dots> = R_N j" unfolding R_N_def using that by (simp add: sc)
    finally show ?thesis .
  qed
  have pool: "?pool (S ! b ! node) ! i = (\<Sum>j<L + 1. R_N j * S ! b ! node ! j ! i)"
    if "node < n" "i < d" for node i
  proof -
    have l: "length (map2 smul ?R (S ! b ! node)) = L + 1"
      using lR is_mat_length [OF Sn [OF that(1)]] by simp
    have "?pool (S ! b ! node) ! i = (\<Sum>j<L + 1. map2 smul ?R (S ! b ! node) ! j ! i)"
      using vsum_index [OF that(2), of "map2 smul ?R (S ! b ! node)"] unfolding l .
    also have "\<dots> = (\<Sum>j<L + 1. R_N j * S ! b ! node ! j ! i)"
    proof (rule sum.cong [OF refl])
      fix j assume "j \<in> {..<L + 1}"
      then have j: "j < L + 1" by simp
      have "length (S ! b ! node ! j) = d" using Sn [OF that(1)] j by (rule is_mat_nth)
      then show "map2 smul ?R (S ! b ! node) ! j ! i = R_N j * S ! b ! node ! j ! i"
        using j lR is_mat_length [OF Sn [OF that(1)]] that(2) Rj [OF j]
        by (simp add: smul_def)
    qed
    finally show ?thesis .
  qed
  have lm: "length ?m = d" by (simp add: vm_def)
  have mi: "?m ! i = m i" if "i < d" for i
  proof -
    have "?m ! i = (\<Sum>node<n. p ! b ! node * map ?pool (S ! b) ! node ! i)"
      using lpb lSb that by (intro vm_index) simp_all
    also have "\<dots> = m i" unfolding m_def
      using lSb that by (intro sum.cong [OF refl]) (simp add: pool)
    finally show ?thesis .
  qed
  have lx: "length ?x = 2 * d" using lm lqb by simp
  have xi: "?x ! i = x i" if "i < 2 * d" for i
    unfolding x_def using that lm mi by (simp add: nth_append)
  have hk: "?h ! k = hidden k" if "k < 2 * d" for k
  proof -
    have "?h ! k = dot (classifier_0_weight w ! k) ?x + classifier_0_bias w ! k"
      using that W1 b1 by (intro Linear_nth) (simp_all add: is_mat_def)
    also have "dot (classifier_0_weight w ! k) ?x = (\<Sum>i<2 * d. classifier_0_weight w ! k ! i * ?x ! i)"
      using is_mat_nth [OF W1 that] lx by (rule dot_index)
    also have "\<dots> = (\<Sum>i<2 * d. classifier_0_weight w ! k ! i * x i)"
      by (intro sum.cong [OF refl]) (simp add: xi)
    finally show ?thesis unfolding hidden_def .
  qed
  have lh: "length ?h = 2 * d" using W1 b1 by (simp add: length_Linear is_mat_def)
  have ak: "map elu ?h ! k = activation k" if "k < 2 * d" for k
    unfolding activation_def using that lh hk [OF that] by (simp add: elu_def)
  have logits: "final_classifier hp w D S r p q ! b ! o' =
      (\<Sum>k<2 * d. classifier_2_weight w ! o' ! k * activation k) + classifier_2_bias w ! o'"
    if "o' < OUT_DIM hp" for o'
  proof -
    have "final_classifier hp w D S r p q ! b =
          Linear (classifier_2_weight w) (classifier_2_bias w) (map elu ?h)"
      using u [THEN conjunct1] unfolding d_def .
    then have "final_classifier hp w D S r p q ! b ! o' =
          dot (classifier_2_weight w ! o') (map elu ?h) + classifier_2_bias w ! o'"
      using that W2 b2 by (simp add: Linear_nth is_mat_def)
    also have "dot (classifier_2_weight w ! o') (map elu ?h) =
          (\<Sum>k<2 * d. classifier_2_weight w ! o' ! k * map elu ?h ! k)"
      using is_mat_nth [OF W2 that] lh by (intro dot_index) simp_all
    also have "\<dots> = (\<Sum>k<2 * d. classifier_2_weight w ! o' ! k * activation k)"
      by (intro sum.cong [OF refl]) (simp add: ak)
    finally show ?thesis .
  qed
  show ?thesis
  proof (intro conjI allI impI)
    show "final_classifier hp w D S r p q ! b ! o' =
      (\<Sum>k<2 * d. classifier_2_weight w ! o' ! k * activation k) + classifier_2_bias w ! o'"
      if "o' < OUT_DIM hp" for o' using that by (rule logits)
    show "length (final_classifier hp w D S r p q) = BATCH hp"
      using u by (rule conjunct1 [OF conjunct2])
    show "length (final_classifier hp w D S r p q ! b) = OUT_DIM hp"
      using u by (rule conjunct1 [OF conjunct2 [OF conjunct2]])
    assume a: "0 < N hp \<and> length r' = length r \<and> (\<forall>c<length r. \<forall>i<N hp. r' ! c ! i = r ! c ! i)"
    from u have imp: "0 < N hp \<and> length r' = length r \<and> (\<forall>c<length r. \<forall>i<N hp. r' ! c ! i = r ! c ! i) \<longrightarrow>
            model_simulation hp L n w D S E r' = model_simulation hp L n w D S E r \<and>
            recurrent_loop hp L n w D S E r' (N hp) = recurrent_loop hp L n w D S E r (N hp)"
      by (rule conjunct2 [OF conjunct2 [OF conjunct2]])
    from imp a show "model_simulation hp L n w D S E r' = model_simulation hp L n w D S E r"
      by (rule conjunct1 [OF mp])
    from imp a show "recurrent_loop hp L n w D S E r' (N hp) = recurrent_loop hp L n w D S E r (N hp)"
      by (rule conjunct2 [OF mp])
  qed
qed


lemma example_valid_weights_negative_bias:
  "valid_weights default_hyperparams 2 example_weights_negative_bias"
  by (simp add: valid_weights_def default_hyperparams_def example_weights_negative_bias_def
      example_weights_def is_mat_def is_tensor3_def quarter_def eye_def)

theorem final_classifier_logits_witness:
  "valid_input default_hyperparams 2 3 example_D example_S example_E example_r \<and>
   valid_weights default_hyperparams 2 example_weights_negative_bias \<and>
   is_mat 32 3 (p_0 32 3) \<and> is_mat 32 7 example_q \<and>
   final_classifier default_hyperparams example_weights_negative_bias example_D example_S example_r
       (p_0 32 3) example_q ! 0 ! 0 = 14 * ((exp (- (15 / 32)) - 1) / 4) + 1 / 4 \<and>
   length (final_classifier default_hyperparams example_weights_negative_bias example_D example_S
             example_r (p_0 32 3) example_q) = 32 \<and>
   length (final_classifier default_hyperparams example_weights_negative_bias example_D example_S
             example_r (p_0 32 3) example_q ! 0) = 4 \<and>
   example_r_alt \<noteq> example_r \<and>
   model_simulation default_hyperparams 2 3 example_weights_negative_bias example_D example_S
       example_E example_r_alt =
     model_simulation default_hyperparams 2 3 example_weights_negative_bias example_D example_S
       example_E example_r"
proof -
  have hp: "BATCH default_hyperparams = 32" "EMBD_DIM default_hyperparams = 7"
    "OUT_DIM default_hyperparams = 4" "N default_hyperparams = 3"
    by (simp_all add: default_hyperparams_def)
  have p: "is_mat 32 3 (p_0 32 3)" by (simp add: is_mat_def p_0_def)
  have q: "is_mat 32 7 example_q" by (simp add: is_mat_def example_q_def half_def)
  have b: "(0::nat) < 32" by simp
  have ne: "example_r_alt \<noteq> example_r"
  proof
    assume "example_r_alt = example_r"
    then have "example_r_alt ! 0 ! 3 ! 0 = example_r ! 0 ! 3 ! 0" by simp
    then show False by (simp add: example_r_alt_def example_r_def half_def nth_append)
  qed
  have l: "length example_r_alt = length example_r" by (simp add: example_r_alt_def example_r_def)
  have eq: "\<forall>c<length example_r. \<forall>i<3. example_r_alt ! c ! i = example_r ! c ! i"
    by (simp add: example_r_alt_def example_r_def nth_append)
  note t = final_classifier_logits [where hp = default_hyperparams and r' = example_r_alt,
      unfolded hp, OF example_valid_input example_valid_weights_negative_bias p q b]
  have o: "(0::nat) < 4" by simp
  have split: "(\<Sum>i<14::nat. c * (if i < 7 then u else v)) = 7 * (c * u) + 7 * (c * v)"
    "(\<Sum>i<14::nat. (if i < 7 then u else v) / c) = 7 * (u / c) + 7 * (v / c)"
    "(\<Sum>i<14::nat. (if i < 7 then u else v) * c) = 7 * (u * c) + 7 * (v * c)" for c u v :: real
    by (simp_all add: eval_nat_numeral)
  have val: "final_classifier default_hyperparams example_weights_negative_bias example_D example_S
       example_r (p_0 32 3) example_q ! 0 ! 0 = 14 * ((exp (- (15 / 32)) - 1) / 4) + 1 / 4"
    apply (rule trans [OF t [THEN conjunct1, rule_format, OF o]])
    apply (simp add: example_weights_negative_bias_def example_weights_def example_D_def example_S_def
        example_r_def example_q_def p_0_def half_def quarter_def split cong: sum.cong_simp if_cong)
    done
  show ?thesis
    using val t [THEN conjunct2] example_valid_input example_valid_weights_negative_bias p q ne l eq
    by simp
qed

lemma dot_smul: "dot (smul c v) w = c * dot v w"
proof (induction v arbitrary: w)
  case Nil
  show ?case by (simp add: dot_def smul_def)
next
  case (Cons a v)
  show ?case
  proof (cases w)
    case Nil
    then show ?thesis by (simp add: dot_def smul_def)
  next
    case (Cons e w')
    with Cons.IH [of w'] show ?thesis by (simp add: dot_def smul_def algebra_simps)
  qed
qed

lemma length_vsum [simp]: "length (vsum d vs) = d"
  by (simp add: vsum_def)

lemma dot_vsum:
  assumes "\<forall>j<length vs. length (vs ! j) = d" "length w = d"
  shows "dot (vsum d vs) w = (\<Sum>j<length vs. dot (vs ! j) w)"
proof -
  have "dot (vsum d vs) w = (\<Sum>k<d. vsum d vs ! k * w ! k)"
    using assms(2) by (intro dot_index) simp_all
  also have "\<dots> = (\<Sum>k<d. (\<Sum>j<length vs. vs ! j ! k) * w ! k)"
    by (intro sum.cong [OF refl]) (simp add: vsum_index)
  also have "\<dots> = (\<Sum>k<d. \<Sum>j<length vs. vs ! j ! k * w ! k)"
    by (simp add: sum_distrib_right)
  also have "\<dots> = (\<Sum>j<length vs. \<Sum>k<d. vs ! j ! k * w ! k)"
    by (rule sum.swap)
  also have "\<dots> = (\<Sum>j<length vs. dot (vs ! j) w)"
  proof (rule sum.cong [OF refl])
    fix j assume "j \<in> {..<length vs}"
    then have "length (vs ! j) = d" using assms(1) by simp
    then show "(\<Sum>k<d. vs ! j ! k * w ! k) = dot (vs ! j) w"
      using assms(2) by (simp add: dot_index)
  qed
  finally show ?thesis .
qed

text \<open>The score of a target node: the sum over the sources of the probability of the
  source times the projection of the edge relevance.\<close>

lemma score_index:
  assumes "length g_b = n" "length p_b = n" "\<forall>y<n. length (g_b ! y) = n"
    and "\<forall>y<n. \<forall>x<n. length (g_b ! y ! x) = d" "length Wr = d" "x < n"
  shows "map (\<lambda>v. dot v Wr)
           (msum n d (map2 (\<lambda>g_y p_y. map (map (\<lambda>z. z * p_y)) g_y) g_b p_b)) ! x =
         (\<Sum>y<n. p_b ! y * dot (g_b ! y ! x) Wr)"
proof -
  let ?ms = "map2 (\<lambda>g_y p_y. map (map (\<lambda>z. z * p_y)) g_y) g_b p_b"
  let ?vs = "map (\<lambda>y. smul (p_b ! y) (g_b ! y ! x)) [0..<n]"
  have col: "column x ?ms = ?vs" using assms(1,2,3,6) by (rule weighted_column)
  have l: "\<forall>j<length ?vs. length (?vs ! j) = d" using assms(4,6) by (simp add: smul_def)
  have "map (\<lambda>v. dot v Wr) (msum n d ?ms) ! x = dot (vsum d ?vs) Wr"
    using assms(6) by (simp add: msum_def col)
  also have "\<dots> = (\<Sum>j<length ?vs. dot (?vs ! j) Wr)" using l assms(5) by (rule dot_vsum)
  also have "\<dots> = (\<Sum>y<n. p_b ! y * dot (g_b ! y ! x) Wr)"
    by (simp add: dot_smul)
  finally show ?thesis .
qed

lemma softmax_nonempty_sum_pos: "xs \<noteq> [] \<Longrightarrow> 0 < (\<Sum>k<length xs. exp (xs ! k :: real))"
  using sum_list_exp_pos [of xs] by (simp add: sum_list_index)

lemma softmax_eq_at:
  assumes eq: "softmax s = softmax s'" and l: "length s = length s'"
    and k: "k < length s" "s ! k = s' ! k"
  shows "s = s'"
proof (rule nth_equalityI [OF l])
  let ?Z = "\<Sum>j<length s. exp (s ! j)" and ?Z' = "\<Sum>j<length s'. exp (s' ! j)"
  from k have ne: "s \<noteq> []" "s' \<noteq> []" using l by auto
  then have Z: "0 < ?Z" "0 < ?Z'" by (simp_all add: softmax_nonempty_sum_pos)
  have at: "exp (s ! i) / ?Z = exp (s' ! i) / ?Z'" if "i < length s" for i
  proof -
    have "softmax s ! i = softmax s' ! i" using eq by simp
    then show ?thesis using that l by (simp add: softmax_index)
  qed
  from at [OF k(1)] k(2) have "exp (s ! k) / ?Z = exp (s ! k) / ?Z'" by simp
  then have "exp (s ! k) * ?Z' = exp (s ! k) * ?Z"
    using Z by (simp add: frac_eq_eq)
  then have ZZ: "?Z' = ?Z" by simp
  fix i assume i: "i < length s"
  from at [OF i] have "exp (s ! i) / ?Z = exp (s' ! i) / ?Z" unfolding ZZ .
  then have "exp (s ! i) = exp (s' ! i)" using Z(1) by simp
  then show "s ! i = s' ! i" by simp
qed


lemma assign_edge_overwrite: "assign_edge i j v (assign_edge i j u T) = assign_edge i j v T"
proof -
  have "(T_b[i := (T_b ! i)[j := u]])[i := (T_b[i := (T_b ! i)[j := u]] ! i)[j := v]] =
        T_b[i := (T_b ! i)[j := v]]" for T_b :: "'a list list"
    by (cases "i < length T_b") (simp_all add: list_update_beyond)
  then show ?thesis by (simp add: assign_edge_def)
qed

text \<open>The scores of the relational update, by index, on edge embeddings of any content.\<close>

lemma p_i_r_scores:
  assumes lE: "length E = B"
    and sh: "\<forall>b<B. length (E ! b) = n \<and> (\<forall>y<n. length (E ! b ! y) = n)"
    and r: "is_mat B d r_i" and p: "is_mat B n p" and Wr: "length Wr = d" and b: "b < B"
  shows "\<exists>sc. length sc = n \<and>
           p_i_r d n Wr (gamma_i_e d B E WL r_i) p ! b = softmax sc \<and>
           (\<forall>x<n. sc ! x =
              (\<Sum>y<n. p ! b ! y * dot (map elu (vmul (vm d (E ! b ! y ! x) WL) (r_i ! b))) Wr))"
proof -
  let ?G = "gamma_i_e d B E WL r_i"
  let ?sc = "map (\<lambda>v. dot v Wr)
               (msum n d (map2 (\<lambda>g_y p_y. map (map (\<lambda>x. x * p_y)) g_y) (?G ! b) (p ! b)))"
  have lr: "length r_i = B" and lp: "length p = B"
    using r p by (simp_all add: is_mat_length)
  have lrb: "length (r_i ! b) = d" using r b by (rule is_mat_nth)
  have lpb: "length (p ! b) = n" using p b by (rule is_mat_nth)
  have lG: "length ?G = B" using lE lr by (simp add: length_gamma_i_e)
  have bE: "b < length E" "b < length r_i" using b lE lr by simp_all
  have Gb: "?G ! b = map (map (\<lambda>e. map elu (vmul (vm d e WL) (r_i ! b)))) (E ! b)"
    using bE(1) b bE(2) by (rule gamma_i_e_nth)
  have lEb: "length (E ! b) = n" and lEy: "\<And>y. y < n \<Longrightarrow> length (E ! b ! y) = n"
    using sh b by simp_all
  have g1: "length (?G ! b) = n" using lEb by (simp add: Gb)
  have g2: "\<forall>y<n. length (?G ! b ! y) = n" using lEb lEy by (simp add: Gb)
  have ent: "?G ! b ! y ! x = map elu (vmul (vm d (E ! b ! y ! x) WL) (r_i ! b))"
    if "y < n" "x < n" for y x
    using that lEb lEy by (simp add: Gb)
  have g3: "\<forall>y<n. \<forall>x<n. length (?G ! b ! y ! x) = d"
    using lrb by (simp add: ent length_gamma_entry del: length_map)
  have row: "p_i_r d n Wr ?G p ! b = softmax ?sc"
    using b lG lp by (intro p_i_r_nth) simp_all
  have val: "?sc ! x =
      (\<Sum>y<n. p ! b ! y * dot (map elu (vmul (vm d (E ! b ! y ! x) WL) (r_i ! b))) Wr)"
    if x: "x < n" for x
  proof -
    have "?sc ! x = (\<Sum>y<n. p ! b ! y * dot (?G ! b ! y ! x) Wr)"
      using g1 lpb g2 g3 Wr x by (rule score_index)
    also have "\<dots> =
      (\<Sum>y<n. p ! b ! y * dot (map elu (vmul (vm d (E ! b ! y ! x) WL) (r_i ! b))) Wr)"
      by (rule sum.cong [OF refl]) (simp add: ent x)
    finally show ?thesis .
  qed
  have "length ?sc = n" by simp
  with row val show ?thesis by blast
qed

text \<open>Overwriting one stored edge embedding: the relational update is the same exactly when
  the contribution of the pair to the score of its target is the same in every batch element.\<close>

lemma p_i_r_assign_edge_iff:
  assumes lE: "length E = B"
    and sh: "\<forall>b<B. length (E ! b) = n \<and> (\<forall>y<n. length (E ! b ! y) = n)"
    and r: "is_mat B d r_i" and p: "is_mat B n p" and Wr: "length Wr = d"
    and n2: "2 \<le> n" and y0: "y0 < n" and x0: "x0 < n"
  shows "p_i_r d n Wr (gamma_i_e d B (assign_edge y0 x0 e' E) WL r_i) p =
         p_i_r d n Wr (gamma_i_e d B E WL r_i) p \<longleftrightarrow>
         (\<forall>b<B. p ! b ! y0 * dot (map elu (vmul (vm d e' WL) (r_i ! b))) Wr =
                 p ! b ! y0 * dot (map elu (vmul (vm d (E ! b ! y0 ! x0) WL) (r_i ! b))) Wr)"
    (is "?P' = ?P \<longleftrightarrow> ?C")
proof -
  let ?E' = "assign_edge y0 x0 e' E"
  let ?f = "\<lambda>T b y x. p ! b ! y * dot (map elu (vmul (vm d (T ! b ! y ! x) WL) (r_i ! b))) Wr"
  have lE': "length ?E' = B" using lE by simp
  have sh': "\<forall>b<B. length (?E' ! b) = n \<and> (\<forall>y<n. length (?E' ! b ! y) = n)"
    using sh lE by (simp add: assign_edge_length1 assign_edge_length2)
  have ent: "?E' ! b ! y ! x = (if y = y0 \<and> x = x0 then e' else E ! b ! y ! x)"
    if "b < B" for b y x
    using that lE sh y0 x0 by (intro assign_edge_nth) simp_all
  have lP: "length ?P = B" "length ?P' = B"
    using lE r p by (simp_all add: length_p_i_r length_gamma_i_e is_mat_length)
  have key: "(?P' ! b = ?P ! b) \<longleftrightarrow> (?f ?E' b y0 x0 = ?f E b y0 x0)" if b: "b < B" for b
  proof -
    from p_i_r_scores [OF lE sh r p Wr b, of WL] obtain sc where
      sc: "length sc = n" "?P ! b = softmax sc" "\<forall>x<n. sc ! x = (\<Sum>y<n. ?f E b y x)"
      by blast
    from p_i_r_scores [OF lE' sh' r p Wr b, of WL] obtain sc' where
      sc': "length sc' = n" "?P' ! b = softmax sc'" "\<forall>x<n. sc' ! x = (\<Sum>y<n. ?f ?E' b y x)"
      by blast
    have other: "sc' ! x = sc ! x" if "x < n" "x \<noteq> x0" for x
    proof -
      have "(\<Sum>y<n. ?f ?E' b y x) = (\<Sum>y<n. ?f E b y x)"
        by (rule sum.cong [OF refl]) (simp add: ent [OF b] that(2))
      then show ?thesis using sc(3) sc'(3) that(1) by simp
    qed
    have rest: "(\<Sum>y\<in>{..<n} - {y0}. ?f ?E' b y x0) = (\<Sum>y\<in>{..<n} - {y0}. ?f E b y x0)"
      by (rule sum.cong [OF refl]) (simp add: ent [OF b])
    have split: "(\<Sum>y<n. g y) = g y0 + (\<Sum>y\<in>{..<n} - {y0}. g y)" for g :: "nat \<Rightarrow> real"
      using y0 by (intro sum.remove) simp_all
    have at: "sc' ! x0 - sc ! x0 = ?f ?E' b y0 x0 - ?f E b y0 x0"
    proof -
      have "sc' ! x0 = ?f ?E' b y0 x0 + (\<Sum>y\<in>{..<n} - {y0}. ?f ?E' b y x0)"
        using sc'(3) x0 split [of "\<lambda>y. ?f ?E' b y x0"] by simp
      moreover have "sc ! x0 = ?f E b y0 x0 + (\<Sum>y\<in>{..<n} - {y0}. ?f E b y x0)"
        using sc(3) x0 split [of "\<lambda>y. ?f E b y x0"] by simp
      ultimately show ?thesis using rest by simp
    qed
    obtain k where k: "k < n" "k \<noteq> x0"
    proof (cases "x0 = 0")
      case True
      with n2 have "1 < n" "1 \<noteq> x0" by simp_all
      then show ?thesis by (rule that)
    next
      case False
      with n2 have "0 < n" "0 \<noteq> x0" by simp_all
      then show ?thesis by (rule that)
    qed
    show ?thesis
    proof
      assume "?P' ! b = ?P ! b"
      then have "softmax sc' = softmax sc" using sc(2) sc'(2) by simp
      moreover have "length sc' = length sc" using sc(1) sc'(1) by simp
      moreover have "k < length sc'" using k(1) sc'(1) by simp
      moreover have "sc' ! k = sc ! k" using other k by simp
      ultimately have "sc' = sc" by (rule softmax_eq_at)
      with at show "?f ?E' b y0 x0 = ?f E b y0 x0" by simp
    next
      assume eq: "?f ?E' b y0 x0 = ?f E b y0 x0"
      have "sc' = sc"
      proof (rule nth_equalityI)
        show "length sc' = length sc" using sc(1) sc'(1) by simp
      next
        fix x assume "x < length sc'"
        then have x: "x < n" using sc'(1) by simp
        show "sc' ! x = sc ! x"
        proof (cases "x = x0")
          case True
          with at eq show ?thesis by simp
        next
          case False
          with other x show ?thesis by simp
        qed
      qed
      then show "?P' ! b = ?P ! b" using sc(2) sc'(2) by simp
    qed
  qed
  have new: "?f ?E' b y0 x0 = p ! b ! y0 * dot (map elu (vmul (vm d e' WL) (r_i ! b))) Wr"
    if "b < B" for b
    by (simp add: ent [OF that])
  show ?thesis
  proof
    assume eq: "?P' = ?P"
    show ?C
    proof (intro allI impI)
      fix b assume b: "b < B"
      from eq have "?P' ! b = ?P ! b" by simp
      then have "?f ?E' b y0 x0 = ?f E b y0 x0" using key [OF b] by simp
      then show "p ! b ! y0 * dot (map elu (vmul (vm d e' WL) (r_i ! b))) Wr = ?f E b y0 x0"
        by (rule trans [OF new [OF b, symmetric]])
    qed
  next
    assume c: ?C
    show "?P' = ?P"
    proof (rule nth_equalityI)
      show "length ?P' = length ?P" using lP by simp
    next
      fix b assume "b < length ?P'"
      then have b: "b < B" using lP by simp
      have c': "p ! b ! y0 * dot (map elu (vmul (vm d e' WL) (r_i ! b))) Wr = ?f E b y0 x0"
        using c b by blast
      have "?f ?E' b y0 x0 = ?f E b y0 x0" by (rule trans [OF new [OF b] c'])
      then show "?P' ! b = ?P ! b" using key [OF b] by simp
    qed
  qed
qed


lemma zero_edge_relevance:
  assumes "length r_b = d"
  shows "map elu (vmul (vm d (replicate d 0) WL) r_b) = replicate d 0"
  using assms by (simp add: vm_zero vmul_zero_left)

text \<open>
  Claim C3, amended. Take the tensors that the scene-graph cells build, with at least two
  nodes, and a directed pair from \<open>y\<close> to \<open>x\<close> whose adjacency flag is 0. Overwriting the
  stored embedding of the pair with \<open>e'\<close> leaves the relational update unchanged if and
  only if, in every batch element, the probability of the source \<open>y\<close> times the projection
  by \<^verbatim>\<open>W_r\<close> of the edge relevance of \<open>e'\<close> is 0. Two runs that differ only in the embedding
  stored at the pair have the same relational update if and only if these products are equal
  in every batch element. The adjacency mask is not read by the relational update: the
  flag enters only through the zero embedding that the construction stores at the pair.
\<close>

theorem absent_edge_perturbation:
  assumes sg: "scene_graph_edges B d nodes relations g = (adjacency_mask, E, g')"
    and r: "is_mat B d r_i" and p: "is_mat B (length nodes) p" and Wr: "length Wr = d"
    and n2: "2 \<le> length nodes" and y: "y < length nodes" and x: "x < length nodes"
    and flag: "\<forall>b<B. adjacency_mask ! b ! y ! x = 0"
  shows "(p_i_r d (length nodes) Wr (gamma_i_e d B (assign_edge y x e' E) WL r_i) p =
          p_i_r d (length nodes) Wr (gamma_i_e d B E WL r_i) p \<longleftrightarrow>
          (\<forall>b<B. p ! b ! y * dot (map elu (vmul (vm d e' WL) (r_i ! b))) Wr = 0)) \<and>
         (p_i_r d (length nodes) Wr (gamma_i_e d B (assign_edge y x e1 E) WL r_i) p =
          p_i_r d (length nodes) Wr (gamma_i_e d B (assign_edge y x e2 E) WL r_i) p \<longleftrightarrow>
          (\<forall>b<B. p ! b ! y * dot (map elu (vmul (vm d e1 WL) (r_i ! b))) Wr =
                  p ! b ! y * dot (map elu (vmul (vm d e2 WL) (r_i ! b))) Wr))"
proof -
  let ?n = "length nodes"
  have built: "edges_built B d nodes relations (permutations2 ?n) (adjacency_mask, E, g')"
    using scene_graph_edges_built [of B d nodes relations g] unfolding sg .
  have lE: "length E = B" using built by (simp add: edges_built_def)
  have sh: "\<forall>b<B. length (E ! b) = ?n \<and> (\<forall>i<?n. length (E ! b ! i) = ?n)"
    using built by (simp add: edges_built_def)
  have zero: "E ! b ! y ! x = replicate d 0" if b: "b < B" for b
  proof -
    have c: "if (y, x) \<in> set (permutations2 ?n) \<and> relations (nodes ! y, nodes ! x) \<noteq> None
          then adjacency_mask ! b ! y ! x = 1
          else adjacency_mask ! b ! y ! x = 0 \<and> E ! b ! y ! x = replicate d 0"
      using built b y x by (simp add: edges_built_def)
    have "adjacency_mask ! b ! y ! x \<noteq> 1" using flag b by simp
    with c show ?thesis by (simp split: if_splits)
  qed
  have old: "dot (map elu (vmul (vm d (E ! b ! y ! x) WL) (r_i ! b))) Wr = 0"
    if b: "b < B" for b
  proof -
    have "length (r_i ! b) = d" using r b by (rule is_mat_nth)
    then show ?thesis by (simp only: zero [OF b] zero_edge_relevance dot_zero_left)
  qed
  have 1: "p_i_r d ?n Wr (gamma_i_e d B (assign_edge y x e' E) WL r_i) p =
           p_i_r d ?n Wr (gamma_i_e d B E WL r_i) p \<longleftrightarrow>
           (\<forall>b<B. p ! b ! y * dot (map elu (vmul (vm d e' WL) (r_i ! b))) Wr = 0)"
    unfolding p_i_r_assign_edge_iff [OF lE sh r p Wr n2 y x] by (simp add: old)
  let ?E2 = "assign_edge y x e2 E"
  have lE2: "length ?E2 = B" using lE by simp
  have sh2: "\<forall>b<B. length (?E2 ! b) = ?n \<and> (\<forall>i<?n. length (?E2 ! b ! i) = ?n)"
    using sh lE by (simp add: assign_edge_length1 assign_edge_length2)
  have ent: "?E2 ! b ! y ! x = e2" if "b < B" for b
  proof -
    have "?E2 ! b ! y ! x = (if y = y \<and> x = x then e2 else E ! b ! y ! x)"
      using that lE sh y x by (intro assign_edge_nth) simp_all
    then show ?thesis by simp
  qed
  have 2: "p_i_r d ?n Wr (gamma_i_e d B (assign_edge y x e1 E) WL r_i) p =
           p_i_r d ?n Wr (gamma_i_e d B ?E2 WL r_i) p \<longleftrightarrow>
           (\<forall>b<B. p ! b ! y * dot (map elu (vmul (vm d e1 WL) (r_i ! b))) Wr =
                   p ! b ! y * dot (map elu (vmul (vm d e2 WL) (r_i ! b))) Wr)"
    using p_i_r_assign_edge_iff [OF lE2 sh2 r p Wr n2 y x, of e1 WL]
    by (simp add: assign_edge_overwrite ent)
  from 1 2 show ?thesis by (rule conjI)
qed


lemma example_balanced_relevance:
  "map elu (vmul (vm 7 example_e_balanced (eye 7)) (half 7)) = [1 / 2, - (1 / 2), 0, 0, 0, 0, 0]"
proof -
  have l: "length example_e_balanced = 7" by (simp add: example_e_balanced_def)
  have h: "half 7 = [1 / 2, 1 / 2, 1 / 2, 1 / 2, 1 / 2, 1 / 2, 1 / 2]"
    by (simp add: half_def eval_nat_numeral)
  have e: "elu (- ln 2) = - (1 / 2)" by (simp add: elu_def exp_minus)
  show ?thesis
    unfolding vm_eye [OF l] h by (simp add: example_e_balanced_def vmul_def e) (simp add: elu_def)
qed

lemma example_half_relevance:
  "map elu (vmul (vm 7 (half 7) (eye 7)) (half 7)) = replicate 7 (1 / 4)"
proof -
  have l: "length (half 7) = 7" by (simp add: half_def)
  show ?thesis
    unfolding vm_eye [OF l] by (simp add: half_def vmul_def elu_def eval_nat_numeral)
qed

lemma dot_balanced_quarter: "dot [1 / 2, - (1 / 2), 0, 0, 0, 0, 0] (quarter 7) = 0"
  by (simp add: dot_def quarter_def eval_nat_numeral)

lemma dot_quarter_quarter: "dot (replicate 7 (1 / 4)) (quarter 7) = 7 / 16"
  by (simp add: dot_def quarter_def eval_nat_numeral)


theorem absent_edge_perturbation_witness:
  "example_adjacency_mask ! 0 ! 0 ! 1 = 0 \<and>
   example_E_balanced \<noteq> example_E \<and>
   map elu (vmul (vm 7 example_e_balanced (eye 7)) (half 7)) = [1 / 2, - (1 / 2), 0, 0, 0, 0, 0] \<and>
   p_i_r 7 3 (quarter 7) (gamma_i_e 7 32 example_E_balanced (eye 7) (column 0 example_r)) (p_0 32 3) =
   p_i_r 7 3 (quarter 7) (gamma_i_e 7 32 example_E (eye 7) (column 0 example_r)) (p_0 32 3) \<and>
   p_i_r 7 3 (quarter 7) (gamma_i_e 7 32 (assign_edge 0 1 (half 7) example_E) (eye 7)
       (column 0 example_r)) (p_0 32 3) \<noteq>
   p_i_r 7 3 (quarter 7) (gamma_i_e 7 32 (assign_edge 0 1 example_e_balanced example_E) (eye 7)
       (column 0 example_r)) (p_0 32 3)"
proof -
  have n: "length example_nodes = 3" by (simp add: example_nodes_def)
  have r: "is_mat 32 7 (column 0 example_r)"
    by (simp add: column_0_example_r is_mat_def half_def)
  have p: "is_mat 32 (length example_nodes) (p_0 32 3)"
    unfolding n by (simp add: is_mat_def p_0_def)
  have Wr: "length (quarter 7) = 7" by (simp add: quarter_def)
  have n2: "2 \<le> length example_nodes" and y: "0 < length example_nodes"
    and x: "1 < length example_nodes"
    unfolding n by simp_all
  have flag: "\<forall>b<32. example_adjacency_mask ! b ! 0 ! 1 = 0"
    by (simp add: example_adjacency_mask_def)
  note t = absent_edge_perturbation [OF example_scene_graph_edges r p Wr n2 y x flag,
      of example_e_balanced "eye 7" "half 7" example_e_balanced, unfolded n]
  have rb: "column 0 example_r ! b = half 7" if "b < 32" for b
    using that by (simp add: column_0_example_r)
  have pb: "p_0 32 3 ! b ! 0 = 1 / 3" if "b < 32" for b
    using that by (simp add: p_0_def)
  have c1: "\<forall>b<32. p_0 32 3 ! b ! 0 *
      dot (map elu (vmul (vm 7 example_e_balanced (eye 7)) (column 0 example_r ! b))) (quarter 7) = 0"
    by (simp add: rb example_balanced_relevance dot_balanced_quarter)
  have c2: "\<not> (\<forall>b<32. p_0 32 3 ! b ! 0 *
      dot (map elu (vmul (vm 7 (half 7) (eye 7)) (column 0 example_r ! b))) (quarter 7) =
      p_0 32 3 ! b ! 0 *
      dot (map elu (vmul (vm 7 example_e_balanced (eye 7)) (column 0 example_r ! b))) (quarter 7))"
  proof
    assume a: "\<forall>b<32. p_0 32 3 ! b ! 0 *
      dot (map elu (vmul (vm 7 (half 7) (eye 7)) (column 0 example_r ! b))) (quarter 7) =
      p_0 32 3 ! b ! 0 *
      dot (map elu (vmul (vm 7 example_e_balanced (eye 7)) (column 0 example_r ! b))) (quarter 7)"
    have b: "(0::nat) < 32" by simp
    from a b have "p_0 32 3 ! 0 ! 0 *
      dot (map elu (vmul (vm 7 (half 7) (eye 7)) (column 0 example_r ! 0))) (quarter 7) =
      p_0 32 3 ! 0 ! 0 *
      dot (map elu (vmul (vm 7 example_e_balanced (eye 7)) (column 0 example_r ! 0))) (quarter 7)"
      by blast
    then show False
      unfolding rb [OF b] pb [OF b] example_balanced_relevance example_half_relevance
        dot_balanced_quarter dot_quarter_quarter
      by simp
  qed
  have 1: "p_i_r 7 3 (quarter 7) (gamma_i_e 7 32 example_E_balanced (eye 7) (column 0 example_r))
             (p_0 32 3) =
           p_i_r 7 3 (quarter 7) (gamma_i_e 7 32 example_E (eye 7) (column 0 example_r)) (p_0 32 3)"
    unfolding example_E_balanced_def using t [THEN conjunct1] c1 by blast
  have 2: "p_i_r 7 3 (quarter 7) (gamma_i_e 7 32 (assign_edge 0 1 (half 7) example_E) (eye 7)
             (column 0 example_r)) (p_0 32 3) \<noteq>
           p_i_r 7 3 (quarter 7) (gamma_i_e 7 32 (assign_edge 0 1 example_e_balanced example_E)
             (eye 7) (column 0 example_r)) (p_0 32 3)"
    using t [THEN conjunct2] c2 by blast
  have 3: "example_E_balanced \<noteq> example_E"
  proof
    assume "example_E_balanced = example_E"
    then have "example_E_balanced ! 0 ! 0 ! 1 ! 0 = example_E ! 0 ! 0 ! 1 ! 0" by simp
    then show False
      by (simp add: example_E_balanced_def example_E_def assign_edge_def example_e_balanced_def)
  qed
  have 4: "example_adjacency_mask ! 0 ! 0 ! 1 = 0" by (simp add: example_adjacency_mask_def)
  from 4 3 example_balanced_relevance 1 2 show ?thesis by (intro conjI)
qed









































end
